theory Spec2Isabelle
  imports Main "HOL-Library.Word" "HOL-Library.Sublist"
begin

unbundle bit_operations_syntax

section \<open>Go library functions used by the parser\<close>

subsection \<open>Package strings\<close>

text \<open>
  A Go string is a sequence of bytes, here a \<^typ>\<open>string\<close>. \<open>strings.HasPrefix\<close> and
  \<open>strings.Contains\<close> compare bytes.
\<close>

definition HasPrefix :: "string \<Rightarrow> string \<Rightarrow> bool" where
  "HasPrefix s p = prefix p s"

definition Contains :: "string \<Rightarrow> string \<Rightarrow> bool" where
  "Contains s substr = sublist substr s"

text \<open>
  \<open>strings.TrimSpace\<close> removes leading and trailing white space as Unicode defines it
  (\<open>unicode.IsSpace\<close>): the six ASCII characters tab, line feed, vertical tab, form feed,
  carriage return and space, and the code points U+0085, U+00A0, U+1680, U+2000 to U+200A,
  U+2028, U+2029, U+202F, U+205F and U+3000, which a string holds in UTF-8. A byte that
  starts no valid encoding decodes to U+FFFD, which is no white space, so trimming stops
  there.
\<close>

definition asciiSpace :: "char \<Rightarrow> bool" where
  "asciiSpace c = (c \<in> set [CHR 0x09, CHR 0x0A, CHR 0x0B, CHR 0x0C, CHR 0x0D, CHR 0x20])"

definition spaceRunes :: "string list" where
  "spaceRunes =
     [[CHR 0xC2, CHR 0x85], [CHR 0xC2, CHR 0xA0], [CHR 0xE1, CHR 0x9A, CHR 0x80],
      [CHR 0xE2, CHR 0x80, CHR 0x80], [CHR 0xE2, CHR 0x80, CHR 0x81],
      [CHR 0xE2, CHR 0x80, CHR 0x82], [CHR 0xE2, CHR 0x80, CHR 0x83],
      [CHR 0xE2, CHR 0x80, CHR 0x84], [CHR 0xE2, CHR 0x80, CHR 0x85],
      [CHR 0xE2, CHR 0x80, CHR 0x86], [CHR 0xE2, CHR 0x80, CHR 0x87],
      [CHR 0xE2, CHR 0x80, CHR 0x88], [CHR 0xE2, CHR 0x80, CHR 0x89],
      [CHR 0xE2, CHR 0x80, CHR 0x8A],
      [CHR 0xE2, CHR 0x80, CHR 0xA8], [CHR 0xE2, CHR 0x80, CHR 0xA9],
      [CHR 0xE2, CHR 0x80, CHR 0xAF], [CHR 0xE2, CHR 0x81, CHR 0x9F],
      [CHR 0xE3, CHR 0x80, CHR 0x80]]"

definition leadingSpace :: "string \<Rightarrow> nat" where
  \<comment> \<open>the width in bytes of the white-space rune the string starts with, 0 when none\<close>
  "leadingSpace s =
     (case s of
        [] \<Rightarrow> 0
      | c # _ \<Rightarrow>
          if asciiSpace c then 1
          else (case find (\<lambda>e. prefix e s) spaceRunes of Some e \<Rightarrow> length e | None \<Rightarrow> 0))"

definition trailingSpace :: "string \<Rightarrow> nat" where
  \<comment> \<open>the width in bytes of the white-space rune the string ends with, 0 when none\<close>
  "trailingSpace s =
     (if s = [] then 0
      else if asciiSpace (last s) then 1
      else (case find (\<lambda>e. suffix e s) spaceRunes of Some e \<Rightarrow> length e | None \<Rightarrow> 0))"

lemma find_holds: "find P xs = Some e \<Longrightarrow> P e"
  by (induction xs) (auto split: if_splits)

lemma leadingSpace_le: "leadingSpace s \<le> length s"
proof (cases "find (\<lambda>e. prefix e s) spaceRunes")
  case None
  then show ?thesis by (cases s) (simp_all add: leadingSpace_def)
next
  case (Some e)
  then have "prefix e s" by (rule find_holds)
  then have "length e \<le> length s" by (rule prefix_length_le)
  with Some show ?thesis by (cases s) (simp_all add: leadingSpace_def)
qed

lemma trailingSpace_le: "trailingSpace s \<le> length s"
proof (cases "find (\<lambda>e. suffix e s) spaceRunes")
  case None
  then show ?thesis by (cases s) (simp_all add: trailingSpace_def)
next
  case (Some e)
  then have "suffix e s" by (rule find_holds)
  then have "length e \<le> length s" by (rule suffix_length_le)
  with Some show ?thesis by (cases s) (simp_all add: trailingSpace_def)
qed

function TrimLeft :: "string \<Rightarrow> string" where
  "TrimLeft s = (if leadingSpace s = 0 then s else TrimLeft (drop (leadingSpace s) s))"
  by pat_completeness auto
termination
proof (relation "measure length")
  fix s :: string
  assume "leadingSpace s \<noteq> 0"
  moreover have "leadingSpace s \<le> length s" by (rule leadingSpace_le)
  ultimately show "(drop (leadingSpace s) s, s) \<in> measure length" by simp
qed simp

function TrimRight :: "string \<Rightarrow> string" where
  "TrimRight s =
     (if trailingSpace s = 0 then s else TrimRight (take (length s - trailingSpace s) s))"
  by pat_completeness auto
termination
proof (relation "measure length")
  fix s :: string
  assume "trailingSpace s \<noteq> 0"
  moreover have "trailingSpace s \<le> length s" by (rule trailingSpace_le)
  ultimately show "(take (length s - trailingSpace s) s, s) \<in> measure length" by simp
qed simp

definition TrimSpace :: "string \<Rightarrow> string" where
  "TrimSpace s = TrimRight (TrimLeft s)"

subsection \<open>Decimal output of integers\<close>

text \<open>
  \<open>fmt.Sprintf\<close> with \<open>%d\<close>, and the zero-padded fields of \<open>time.Format\<close>
  (\<open>appendInt\<close> of package time: a sign, then at least \<open>width\<close> digits).
\<close>

definition digit_char :: "nat \<Rightarrow> char" where
  "digit_char d = ''0123456789'' ! d"

fun digits :: "nat \<Rightarrow> string" where
  "digits n = (if n < 10 then [digit_char n] else digits (n div 10) @ [digit_char (n mod 10)])"

declare digits.simps [simp del]

definition Sprintf_d :: "int \<Rightarrow> string" where
  "Sprintf_d i = (if i < 0 then CHR ''-'' # digits (nat (- i)) else digits (nat i))"

definition appendInt :: "int \<Rightarrow> nat \<Rightarrow> string" where
  "appendInt x width =
     (let ds = digits (nat \<bar>x\<bar>)
      in (if x < 0 then ''-'' else '''') @ replicate (width - length ds) CHR ''0'' @ ds)"

subsection \<open>Package time\<close>

text \<open>
  The parser builds every \<open>time.Time\<close> with \<open>time.Parse\<close> from a layout that has a date
  only, so the value is midnight UTC of a calendar day, and both layouts it is printed
  with show the date only. A \<open>time.Time\<close> is modelled by its calendar date.
\<close>

record Time =
  year :: int
  month :: nat
  day :: nat

definition Time_zero :: Time where
  "Time_zero = \<lparr>year = 1, month = 1, day = 1\<rparr>"

definition isDigit :: "string \<Rightarrow> nat \<Rightarrow> bool" where
  "isDigit s i = (i < length s \<and> 48 \<le> (of_char (s ! i) :: nat) \<and> (of_char (s ! i) :: nat) \<le> 57)"

definition digit_val :: "char \<Rightarrow> nat" where
  "digit_val c = of_char c - 48"

definition getnum :: "string \<Rightarrow> bool \<Rightarrow> (nat \<times> string) option" where
  "getnum s fixed =
     (if \<not> isDigit s 0 then None
      else if \<not> isDigit s 1 then
        (if fixed then None else Some (digit_val (s ! 0), drop 1 s))
      else Some (digit_val (s ! 0) * 10 + digit_val (s ! 1), drop 2 s))"

definition isLeap :: "int \<Rightarrow> bool" where
  "isLeap y = (y mod 4 = 0 \<and> (y mod 100 \<noteq> 0 \<or> y mod 400 = 0))"

definition daysIn :: "nat \<Rightarrow> int \<Rightarrow> nat" where
  "daysIn m y =
     (if m = 2 then (if isLeap y then 29 else 28)
      else if m \<in> {4, 6, 9, 11} then 30 else 31)"

text \<open>
  \<open>time.Parse("1/2/2006", value)\<close>: a month of one or two digits, a slash, a day of one
  or two digits, a slash, a year of exactly four digits, and nothing after it; the month
  is in 1..12 and the day exists in that month. \<open>None\<close> is a non-nil error.
\<close>

definition time_Parse :: "string \<Rightarrow> Time option" where
  "time_Parse v =
     (case getnum v False of
        None \<Rightarrow> None
      | Some (m, v1) \<Rightarrow>
          if m = 0 \<or> 12 < m then None
          else if \<not> HasPrefix v1 ''/'' then None
          else (case getnum (drop 1 v1) False of
             None \<Rightarrow> None
           | Some (d, v2) \<Rightarrow>
               if \<not> HasPrefix v2 ''/'' then None
               else let v3 = drop 1 v2 in
                 if length v3 < 4 \<or> \<not> isDigit v3 0 then None
                 else if \<not> (isDigit v3 1 \<and> isDigit v3 2 \<and> isDigit v3 3) then None
                 else if drop 4 v3 \<noteq> [] then None
                 else let y = int (digit_val (v3 ! 0) * 1000 + digit_val (v3 ! 1) * 100
                              + digit_val (v3 ! 2) * 10 + digit_val (v3 ! 3)) in
                   if d < 1 \<or> daysIn m y < d then None
                   else Some \<lparr>year = y, month = m, day = d\<rparr>))"

definition Format_iso :: "Time \<Rightarrow> string" where
  \<comment> \<open>\<open>t.Format("2006-01-02")\<close>\<close>
  "Format_iso t =
     appendInt (year t) 4 @ ''-'' @ appendInt (int (month t)) 2 @ ''-'' @ appendInt (int (day t)) 2"


subsection \<open>Floating point\<close>

text \<open>
  A \<open>float64\<close> is its 64 bits in IEEE 754 binary64. The two comparisons with the constant
  0 that the parser makes are decided by the bits: \<open>x != 0\<close> holds unless \<open>x\<close> is one
  of the two zeros, and \<open>x > 0\<close> holds for a non-zero value with the sign bit clear that
  is no NaN.

  What package strconv, the floating-point unit and package fmt compute is not modelled:
  \<open>strconv.ParseFloat(s, 64)\<close> (\<open>None\<close> when it returns a non-nil error),
  \<open>int64(x * 1000)\<close> and \<open>fmt.Sprintf("%.2f", x)\<close> are parameters of the model,
  collected in a record that every function using them takes as its first argument.
\<close>

type_synonym float64 = "64 word"

definition float_ne_zero :: "float64 \<Rightarrow> bool" where
  "float_ne_zero x = (x AND 0x7FFFFFFFFFFFFFFF \<noteq> 0)"

definition isNaN :: "float64 \<Rightarrow> bool" where
  "isNaN x = (x AND 0x7FF0000000000000 = 0x7FF0000000000000 \<and> x AND 0x000FFFFFFFFFFFFF \<noteq> 0)"

definition float_gt_zero :: "float64 \<Rightarrow> bool" where
  "float_gt_zero x = (float_ne_zero x \<and> \<not> isNaN x \<and> x AND 0x8000000000000000 = 0)"

record float_lib =
  ParseFloat :: "string \<Rightarrow> float64 option"
  mul1000_int64 :: "float64 \<Rightarrow> int"
  Sprintf_2f :: "float64 \<Rightarrow> string"

section \<open>The domain model\<close>

record Transaction =
  Date :: Time
  PostingDate :: Time
  Payee :: string
  Memo :: string
  Amount :: float64
  Currency :: string
  ForeignAmount :: float64
  ForeignCurrency :: string
  ExchangeRate :: float64
  ImportID :: string
  SourceFile :: string
  SourceLine :: nat

definition Transaction_zero :: Transaction where
  \<comment> \<open>the zero value of the struct\<close>
  "Transaction_zero =
     \<lparr>Date = Time_zero, PostingDate = Time_zero, Payee = [], Memo = [], Amount = 0,
      Currency = [], ForeignAmount = 0, ForeignCurrency = [], ExchangeRate = 0,
      ImportID = [], SourceFile = [], SourceLine = 0\<rparr>"

section \<open>The Miles and More statement parser\<close>

definition colVoucherDate :: nat where "colVoucherDate = 0"
definition colReceiptDate :: nat where "colReceiptDate = 1"
definition colPayee :: nat where "colPayee = 2"
definition colForeignCurrency :: nat where "colForeignCurrency = 3"
definition colForeignAmount :: nat where "colForeignAmount = 4"
definition colExchangeRate :: nat where "colExchangeRate = 5"
definition colAmount :: nat where "colAmount = 6"
definition colCurrency :: nat where "colCurrency = 7"
definition expectedColumnCount :: nat where "expectedColumnCount = 8"

definition feeIdentifier :: string where
  "feeIdentifier = ''AUSLANDSEINSATZENTGELT''"

text \<open>
  Errors are values. A constructor with an argument wraps its cause, as \<open>fmt.Errorf\<close>
  with \<open>%w\<close> does. \<open>IndexOutOfRange\<close> stands for the run-time panic of an index
  expression out of range.
\<close>

datatype error =
    DateEmpty
  | InvalidDateFormat
  | AmountEmpty
  | InvalidNumberFormat
  | InvalidExchangeRate
  | InvalidVoucherDate error
  | InvalidReceiptDate error
  | PayeeRequired
  | InvalidAmount error
  | ExpectedColumns nat nat
  | CsvReadError string
  | ParsingCancelled
  | IndexOutOfRange

record ParseError =
  Line :: nat
  Row :: "string list"
  Error :: error

record ParseResult =
  Transactions :: "Transaction list"
  Errors :: "ParseError list"
  TotalRows :: nat
  SuccessfulRows :: nat

definition parseDate :: "string \<Rightarrow> error + Time" where
  "parseDate dateStr =
     (if dateStr = [] then Inl DateEmpty
      else case time_Parse dateStr of
             None \<Rightarrow> Inl InvalidDateFormat
           | Some t \<Rightarrow> Inr t)"

definition parseAmount :: "float_lib \<Rightarrow> string \<Rightarrow> error + float64" where
  "parseAmount F amountStr =
     (if amountStr = [] then Inl AmountEmpty
      else case ParseFloat F (TrimSpace amountStr) of
             None \<Rightarrow> Inl InvalidNumberFormat
           | Some amount \<Rightarrow> Inr amount)"

definition parseExchangeRate :: "float_lib \<Rightarrow> string \<Rightarrow> error + float64" where
  "parseExchangeRate F rateStr =
     (if rateStr = [] then Inr 0
      else case ParseFloat F (TrimSpace rateStr) of
             None \<Rightarrow> Inl InvalidExchangeRate
           | Some rate \<Rightarrow> Inr rate)"

definition index :: "string list \<Rightarrow> nat \<Rightarrow> (string \<Rightarrow> error + 'a) \<Rightarrow> error + 'a" where
  \<comment> \<open>the index expression \<open>record[i]\<close>, and what is done with its value\<close>
  "index rec i k = (if i < length rec then k (rec ! i) else Inl IndexOutOfRange)"

definition parseTransaction ::
  "float_lib \<Rightarrow> string list \<Rightarrow> nat \<Rightarrow> string \<Rightarrow> error + Transaction" where
  "parseTransaction F rec lineNumber sourceFile =
     (let transaction =
        Transaction_zero\<lparr>SourceFile := sourceFile, SourceLine := lineNumber, Currency := ''EUR''\<rparr>
      in
      index rec colVoucherDate (\<lambda>f0.
      case parseDate (TrimSpace f0) of
        Inl err \<Rightarrow> Inl (InvalidVoucherDate err)
      | Inr voucherDate \<Rightarrow>
      let transaction = transaction\<lparr>Date := voucherDate\<rparr> in
      index rec colReceiptDate (\<lambda>f1.
      case parseDate (TrimSpace f1) of
        Inl err \<Rightarrow> Inl (InvalidReceiptDate err)
      | Inr receiptDate \<Rightarrow>
      let transaction = transaction\<lparr>PostingDate := receiptDate\<rparr> in
      index rec colPayee (\<lambda>f2.
      let transaction = transaction\<lparr>Payee := TrimSpace f2\<rparr> in
      if Payee transaction = [] then Inl PayeeRequired
      else
      index rec colAmount (\<lambda>f6.
      case parseAmount F (TrimSpace f6) of
        Inl err \<Rightarrow> Inl (InvalidAmount err)
      | Inr amount \<Rightarrow>
      let transaction = transaction\<lparr>Amount := amount\<rparr> in
      index rec colCurrency (\<lambda>f7.
      let currency = TrimSpace f7;
          transaction = (if currency \<noteq> [] then transaction\<lparr>Currency := currency\<rparr>
                         else transaction)
      in
      index rec colForeignCurrency (\<lambda>f3.
      let foreignCurrency = TrimSpace f3 in
      if foreignCurrency \<noteq> [] \<and> foreignCurrency \<noteq> ''EUR'' then
        let transaction = transaction\<lparr>ForeignCurrency := foreignCurrency\<rparr> in
        index rec colForeignAmount (\<lambda>f4.
        let transaction =
              (case parseAmount F (TrimSpace f4) of
                 Inr foreignAmount \<Rightarrow> transaction\<lparr>ForeignAmount := foreignAmount\<rparr>
               | Inl err \<Rightarrow> transaction)
        in
        index rec colExchangeRate (\<lambda>f5.
        let transaction =
              (case parseExchangeRate F (TrimSpace f5) of
                 Inr exchangeRate \<Rightarrow>
                   if float_gt_zero exchangeRate
                   then transaction\<lparr>ExchangeRate := exchangeRate\<rparr> else transaction
               | Inl err \<Rightarrow> transaction)
        in Inr transaction))
      else Inr transaction)))))))"

text \<open>
  \<open>generateImportID\<close> increments the entry of the occurrence map in place; the model
  returns the new map with the identifier. A key the map does not hold reads as 0.
\<close>

definition generateImportID ::
  "float_lib \<Rightarrow> Transaction \<Rightarrow> (string \<rightharpoonup> int) \<Rightarrow> string \<times> (string \<rightharpoonup> int)" where
  "generateImportID F t occurrenceMap =
     (let milliunits = mul1000_int64 F (Amount t);
          isoDate = Format_iso (Date t);
          baseKey = Sprintf_d milliunits @ '':'' @ isoDate;
          occurrence = (case occurrenceMap baseKey of None \<Rightarrow> 0 | Some n \<Rightarrow> n) + 1
      in (''YNAB:'' @ Sprintf_d milliunits @ '':'' @ isoDate @ '':'' @ Sprintf_d occurrence,
          occurrenceMap(baseKey \<mapsto> occurrence)))"

subsection \<open>The reader and the context\<close>

text \<open>
  \<open>csvReader.Read()\<close> is the parser's input. It returns a record and a nil error, or a
  record (possibly nil, modelled by the empty list) and a non-nil error other than
  \<open>io.EOF\<close>, or \<open>io.EOF\<close>. A reader is modelled by the results of its successive calls:
  \<open>csvReader k\<close> is what the call number \<open>k\<close> (from 0) returns. The loop increments
  \<open>lineNumber\<close> after every call, so the call it makes next has the number
  \<open>lineNumber\<close>.

  A context is modelled by what each \<open>select\<close> on \<open>ctx.Done()\<close> finds: \<open>cancelled k\<close> says
  that the check at the start of iteration \<open>k\<close> (from 0) finds the channel closed. A nil
  context is \<open>None\<close>; \<open>Parse\<close> replaces it by \<open>context.Background()\<close>, which is never
  done.
\<close>

datatype read_result =
    Read_ok "string list"
  | Read_err "string list" string
  | Read_EOF

type_synonym reader = "nat \<Rightarrow> read_result"

type_synonym go_context = "(nat \<Rightarrow> bool) option"

definition Background :: "nat \<Rightarrow> bool" where
  "Background = (\<lambda>k. False)"

definition or_Background :: "go_context \<Rightarrow> nat \<Rightarrow> bool" where
  \<comment> \<open>\<open>if ctx == nil { ctx = context.Background() }\<close>\<close>
  "or_Background ctx = (case ctx of None \<Rightarrow> Background | Some cancelled \<Rightarrow> cancelled)"

subsection \<open>The loop of Parse\<close>

record loop_state =
  result :: ParseResult
  lineNumber :: nat
  headerSkipped :: bool
  occurrenceMap :: "string \<rightharpoonup> int"
  previousTransaction :: "Transaction option"

definition add_error :: "nat \<Rightarrow> string list \<Rightarrow> error \<Rightarrow> ParseResult \<Rightarrow> ParseResult" where
  \<comment> \<open>\<open>result.Errors = append(result.Errors, ParseError{Line, Row, Error})\<close>\<close>
  "add_error line rec err r = r\<lparr>Errors := Errors r @ [\<lparr>Line = line, Row = rec, Error = err\<rparr>]\<rparr>"

definition is_blank :: "string list \<Rightarrow> bool" where
  \<comment> \<open>the condition of the empty-row skip\<close>
  "is_blank rec = (length rec = 0 \<or> (length rec = 1 \<and> TrimSpace (rec ! 0) = []))"

definition is_balance :: "string list \<Rightarrow> bool" where
  \<comment> \<open>the condition of the balance-row skip\<close>
  "is_balance rec = (length rec > 0 \<and> HasPrefix (TrimSpace (rec ! 0)) ''Balance:'')"

definition associate_fee :: "Transaction option \<Rightarrow> Transaction \<Rightarrow> Transaction" where
  \<comment> \<open>the fee association of a parsed transaction\<close>
  "associate_fee previous transaction =
     (case previous of
        None \<Rightarrow> transaction
      | Some prev \<Rightarrow>
          if Contains (Payee transaction) feeIdentifier then
            (if ForeignCurrency prev \<noteq> [] \<and> float_ne_zero (ForeignAmount prev)
             then transaction\<lparr>Memo := ''Fee for transaction: '' @ Payee prev\<rparr>
             else transaction)
          else transaction)"

text \<open>
  One iteration of the loop for a result of \<open>Read\<close> that is not \<open>io.EOF\<close>, from the
  increment of \<open>lineNumber\<close> to the end of the body. Every \<open>continue\<close> is a branch that
  returns the state.
\<close>

definition iteration :: "float_lib \<Rightarrow> string \<Rightarrow> read_result \<Rightarrow> loop_state \<Rightarrow> loop_state" where
  "iteration F sourceFile rr st0 =
     (let st = st0\<lparr>lineNumber := lineNumber st0 + 1\<rparr> in
      case rr of
        Read_EOF \<Rightarrow> st
      | Read_err rec msg \<Rightarrow>
          st\<lparr>result := add_error (lineNumber st) rec (CsvReadError msg) (result st)\<rparr>
      | Read_ok rec \<Rightarrow>
          if \<not> headerSkipped st \<and> lineNumber st \<le> 4 then st
          else if \<not> headerSkipped st \<and> length rec > 0 \<and> Contains (rec ! 0) ''Voucher date''
          then st\<lparr>headerSkipped := True\<rparr>
          else
            let st = st\<lparr>headerSkipped := True\<rparr> in
            if is_blank rec then st
            else if is_balance rec then st
            else if length rec < expectedColumnCount then
              st\<lparr>result :=
                   (add_error (lineNumber st) rec
                      (ExpectedColumns expectedColumnCount (length rec)) (result st))
                   \<lparr>TotalRows := TotalRows (result st) + 1\<rparr>\<rparr>
            else
              (case parseTransaction F rec (lineNumber st) sourceFile of
                 Inl err \<Rightarrow>
                   st\<lparr>result :=
                        (add_error (lineNumber st) rec err (result st))
                        \<lparr>TotalRows := TotalRows (result st) + 1\<rparr>\<rparr>
               | Inr parsed \<Rightarrow>
                   let transaction = associate_fee (previousTransaction st) parsed;
                       (importID, om) = generateImportID F transaction (occurrenceMap st);
                       transaction = transaction\<lparr>ImportID := importID\<rparr>
                   in st\<lparr>result :=
                           (result st)
                           \<lparr>Transactions := Transactions (result st) @ [transaction],
                            TotalRows := TotalRows (result st) + 1,
                            SuccessfulRows := SuccessfulRows (result st) + 1\<rparr>,
                         occurrenceMap := om,
                         previousTransaction := Some transaction\<rparr>))"

text \<open>
  The loop ends when the context is done or the reader reports \<open>io.EOF\<close>. Nothing else
  ends it, so it is a partial function: \<open>None\<close> is a call that does not return.
\<close>

partial_function (option) parse_loop ::
  "float_lib \<Rightarrow> (nat \<Rightarrow> bool) \<Rightarrow> reader \<Rightarrow> string \<Rightarrow> loop_state \<Rightarrow> (error + ParseResult) option"
where
  "parse_loop F cancelled csvReader sourceFile st =
     (if cancelled (lineNumber st) then Some (Inl ParsingCancelled)
      else case csvReader (lineNumber st) of
             Read_EOF \<Rightarrow> Some (Inr (result st))
           | rr \<Rightarrow> parse_loop F cancelled csvReader sourceFile (iteration F sourceFile rr st))"

definition initial_state :: loop_state where
  "initial_state =
     \<lparr>result = \<lparr>Transactions = [], Errors = [], TotalRows = 0, SuccessfulRows = 0\<rparr>,
      lineNumber = 0, headerSkipped = False, occurrenceMap = Map.empty,
      previousTransaction = None\<rparr>"

definition Parse ::
  "float_lib \<Rightarrow> go_context \<Rightarrow> reader \<Rightarrow> string \<Rightarrow> (error + ParseResult) option" where
  "Parse F ctx csvReader sourceFile =
     parse_loop F (or_Background ctx) csvReader sourceFile initial_state"

text \<open>
  The state after the loop body has run on a list of results of \<open>Read\<close>, and the first
  \<open>n\<close> results of a reader.
\<close>

definition run :: "float_lib \<Rightarrow> string \<Rightarrow> read_result list \<Rightarrow> loop_state \<Rightarrow> loop_state" where
  "run F sourceFile rrs st = foldl (\<lambda>s rr. iteration F sourceFile rr s) st rrs"

definition reads :: "reader \<Rightarrow> nat \<Rightarrow> read_result list" where
  "reads csvReader n = map csvReader [0..<n]"

definition reader_of :: "read_result list \<Rightarrow> reader" where
  \<comment> \<open>the reader of a stream that gives these results and then \<open>io.EOF\<close>\<close>
  "reader_of rrs k = (if k < length rrs then rrs ! k else Read_EOF)"

subsection \<open>The rows the loop skips\<close>

text \<open>
  The classes of records named by the specification, for the record that call number
  \<open>k\<close> of the reader returns (its line number is \<open>k + 1\<close>): the metadata block is the
  first four lines; the column header is the first record after them, when its first
  field contains the marker; a blank record and a balance record are as the loop tests
  them. A data row is a record in none of these classes.
\<close>

definition is_Read_ok :: "read_result \<Rightarrow> bool" where
  "is_Read_ok rr = (case rr of Read_ok rec \<Rightarrow> True | _ \<Rightarrow> False)"

definition past_header :: "reader \<Rightarrow> nat \<Rightarrow> bool" where
  \<comment> \<open>a record was read after line 4 and before call \<open>k\<close>\<close>
  "past_header csvReader k = list_ex (\<lambda>j. 4 \<le> j \<and> is_Read_ok (csvReader j)) [0..<k]"

definition is_column_header :: "reader \<Rightarrow> nat \<Rightarrow> string list \<Rightarrow> bool" where
  "is_column_header csvReader k rec =
     (4 \<le> k \<and> \<not> past_header csvReader k \<and> length rec > 0 \<and> Contains (rec ! 0) ''Voucher date'')"

definition skipped :: "reader \<Rightarrow> nat \<Rightarrow> bool" where
  "skipped csvReader k =
     (case csvReader k of
        Read_ok rec \<Rightarrow> k < 4 \<or> is_column_header csvReader k rec \<or> is_blank rec \<or> is_balance rec
      | _ \<Rightarrow> False)"

definition data_row :: "reader \<Rightarrow> nat \<Rightarrow> string list \<Rightarrow> bool" where
  "data_row csvReader k rec = (csvReader k = Read_ok rec \<and> \<not> skipped csvReader k)"

definition is_read_fault :: "ParseError \<Rightarrow> bool" where
  "is_read_fault e = (case Error e of CsvReadError msg \<Rightarrow> True | _ \<Rightarrow> False)"

text \<open>
  The same classes for the loop in a given state: \<open>skips st rec\<close> says that the
  iteration that reads the record \<open>rec\<close> in state \<open>st\<close> skips it. \<open>finish\<close> is
  what the loop makes of a parsed transaction before it appends it.
\<close>

definition skips :: "loop_state \<Rightarrow> string list \<Rightarrow> bool" where
  "skips st rec =
     ((\<not> headerSkipped st \<and> lineNumber st < 4) \<or>
      (\<not> headerSkipped st \<and> length rec > 0 \<and> Contains (rec ! 0) ''Voucher date'') \<or>
      is_blank rec \<or> is_balance rec)"

definition finish :: "float_lib \<Rightarrow> loop_state \<Rightarrow> Transaction \<Rightarrow> Transaction" where
  "finish F st parsed =
     (let transaction = associate_fee (previousTransaction st) parsed
      in transaction\<lparr>ImportID := fst (generateImportID F transaction (occurrenceMap st))\<rparr>)"

section \<open>The transformer to the budgeting service's CSV format\<close>









definition state_after :: "float_lib \<Rightarrow> string \<Rightarrow> reader \<Rightarrow> nat \<Rightarrow> loop_state" where
  "state_after F sourceFile csvReader k = run F sourceFile (reads csvReader k) initial_state"

definition plain :: "char \<Rightarrow> bool" where
  \<comment> \<open>an ASCII character that is no white space\<close>
  "plain c = (\<not> asciiSpace c \<and> (of_char c :: nat) < 128)"

definition sample_floats :: float_lib where
  "sample_floats =
     \<lparr>ParseFloat = (\<lambda>s. if s = ''-10.00'' then Some 0xC024000000000000
                        else if s = ''-12.50'' then Some 0xC029000000000000 else None),
      mul1000_int64 = (\<lambda>x. if x = 0xC024000000000000 then - 10000
                           else if x = 0xC029000000000000 then - 12500 else 0),
      Sprintf_2f = (\<lambda>x. if x = 0xC024000000000000 then ''-10.00''
                        else if x = 0xC029000000000000 then ''-12.50'' else ''0.00'')\<rparr>"

definition preamble :: "read_result list" where
  "preamble =
     [Read_ok [''Credit card transactions''],
      Read_ok [''Credit card'', ''Customer number'', ''Card number'', ''Card holder''],
      Read_ok [''Miles & More Gold Credit Card'', ''123'', ''5426****1495'', ''TEST''],
      Read_ok [''Billing date: 2/3/2026''],
      Read_ok [''Voucher date'', ''Date of receipt'', ''Reason for payment'',
               ''Foreign currency'', ''Amount'', ''Exchange rate'', ''Amount'', ''Currency'']]"

definition row_foreign :: "string list" where
  "row_foreign = [''1/28/2026'', ''1/29/2026'', ''RECALL'', ''USD'', ''-12.50'', ''abc'', ''-10.00'', ''EUR'']"

definition row_fee :: "string list" where
  "row_fee = [''1/28/2026'', ''1/29/2026'', ''AUSLANDSEINSATZENTGELT'', '''', '''', ''0.00000'', ''-10.00'', ''EUR'']"

definition row_test :: "string list" where
  "row_test = [''1/5/2026'', ''1/5/2026'', ''Test'', '''', '''', ''0.00000'', ''-10.00'', ''EUR'']"

definition row_usd :: "string list" where
  "row_usd = [''1/5/2026'', ''1/5/2026'', ''Test'', ''USD'', ''-12.50'', '''', ''-10.00'', ''USD'']"

definition row_short :: "string list" where
  "row_short = [''1/5/2026'', ''Test'']"

definition row_bad_date :: "string list" where
  "row_bad_date = [''2026-01-29'', ''1/5/2026'', ''Test'', '''', '''', ''0.00000'', ''-10.00'', ''EUR'']"

definition row_balance :: "string list" where
  "row_balance = [''Balance:'', '''', '''', '''', '''', ''100.00'', ''EUR'']"

definition sample_statement :: "read_result list" where
  "sample_statement =
     preamble @
     [Read_ok row_foreign, Read_err [] ''bare quote'', Read_ok row_short, Read_ok row_bad_date,
      Read_ok [[]], Read_ok row_fee, Read_ok row_test, Read_ok row_fee, Read_ok row_test,
      Read_ok row_balance]"

definition sample_result :: "string \<Rightarrow> ParseResult" where
  "sample_result src =
   \<lparr>Transactions =
    [\<lparr>Date = \<lparr>year = 2026, month = 1, day = 28\<rparr>,
        PostingDate = \<lparr>year = 2026, month = 1, day = 29\<rparr>,
        Payee = ''RECALL'', Memo = [], Amount = 0xC024000000000000,
        Currency = ''EUR'', ForeignAmount = 0xC029000000000000,
        ForeignCurrency = ''USD'', ExchangeRate = 0,
        ImportID = ''YNAB:-10000:2026-01-28:1'',
        SourceFile = src, SourceLine = 6\<rparr>,
     \<lparr>Date = \<lparr>year = 2026, month = 1, day = 28\<rparr>,
        PostingDate = \<lparr>year = 2026, month = 1, day = 29\<rparr>,
        Payee = ''AUSLANDSEINSATZENTGELT'',
        Memo = ''Fee for transaction: RECALL'',
        Amount = 0xC024000000000000, Currency = ''EUR'',
        ForeignAmount = 0, ForeignCurrency = [], ExchangeRate = 0,
        ImportID = ''YNAB:-10000:2026-01-28:2'',
        SourceFile = src, SourceLine = 11\<rparr>,
     \<lparr>Date = \<lparr>year = 2026, month = 1, day = 5\<rparr>,
        PostingDate = \<lparr>year = 2026, month = 1, day = 5\<rparr>, Payee = ''Test'',
        Memo = [], Amount = 0xC024000000000000, Currency = ''EUR'',
        ForeignAmount = 0, ForeignCurrency = [], ExchangeRate = 0,
        ImportID = ''YNAB:-10000:2026-01-05:1'',
        SourceFile = src, SourceLine = 12\<rparr>,
     \<lparr>Date = \<lparr>year = 2026, month = 1, day = 28\<rparr>,
        PostingDate = \<lparr>year = 2026, month = 1, day = 29\<rparr>,
        Payee = ''AUSLANDSEINSATZENTGELT'', Memo = [],
        Amount = 0xC024000000000000, Currency = ''EUR'',
        ForeignAmount = 0, ForeignCurrency = [], ExchangeRate = 0,
        ImportID = ''YNAB:-10000:2026-01-28:3'',
        SourceFile = src, SourceLine = 13\<rparr>,
     \<lparr>Date = \<lparr>year = 2026, month = 1, day = 5\<rparr>,
        PostingDate = \<lparr>year = 2026, month = 1, day = 5\<rparr>, Payee = ''Test'',
        Memo = [], Amount = 0xC024000000000000, Currency = ''EUR'',
        ForeignAmount = 0, ForeignCurrency = [], ExchangeRate = 0,
        ImportID = ''YNAB:-10000:2026-01-05:2'',
        SourceFile = src, SourceLine = 14\<rparr>],
    Errors =
      [\<lparr>Line = 7, Row = [], Error = CsvReadError ''bare quote''\<rparr>,
       \<lparr>Line = 8, Row = row_short, Error = ExpectedColumns 8 2\<rparr>,
       \<lparr>Line = 9, Row = row_bad_date, Error = InvalidVoucherDate InvalidDateFormat\<rparr>],
    TotalRows = 7, SuccessfulRows = 5\<rparr>"

fun root_cause :: "error \<Rightarrow> error" where
  "root_cause (InvalidVoucherDate e) = root_cause e"
| "root_cause (InvalidReceiptDate e) = root_cause e"
| "root_cause (InvalidAmount e) = root_cause e"
| "root_cause e = e"

definition usd_statement :: "read_result list" where
  "usd_statement = preamble @ [Read_ok row_usd]"

definition usd_result :: ParseResult where
  "usd_result =
   \<lparr>Transactions =
      [\<lparr>Date = \<lparr>year = 2026, month = 1, day = 5\<rparr>,
        PostingDate = \<lparr>year = 2026, month = 1, day = 5\<rparr>, Payee = ''Test'',
        Memo = [], Amount = 0xC024000000000000, Currency = ''USD'',
        ForeignAmount = 0xC029000000000000, ForeignCurrency = ''USD'',
        ExchangeRate = 0, ImportID = ''YNAB:-10000:2026-01-05:1'',
        SourceFile = ''statement.csv'', SourceLine = 6\<rparr>],
    Errors = [], TotalRows = 1, SuccessfulRows = 1\<rparr>"

definition bad_rate_statement :: "read_result list" where
  "bad_rate_statement = preamble @ [Read_ok row_foreign]"

definition bad_rate_result :: ParseResult where
  "bad_rate_result =
   \<lparr>Transactions =
      [\<lparr>Date = \<lparr>year = 2026, month = 1, day = 28\<rparr>,
        PostingDate = \<lparr>year = 2026, month = 1, day = 29\<rparr>, Payee = ''RECALL'',
        Memo = [], Amount = 0xC024000000000000, Currency = ''EUR'',
        ForeignAmount = 0xC029000000000000, ForeignCurrency = ''USD'',
        ExchangeRate = 0, ImportID = ''YNAB:-10000:2026-01-28:1'',
        SourceFile = ''statement.csv'', SourceLine = 6\<rparr>],
    Errors = [], TotalRows = 1, SuccessfulRows = 1\<rparr>"

definition valid_row :: "float_lib \<Rightarrow> string \<Rightarrow> reader \<Rightarrow> nat \<Rightarrow> bool" where
  \<comment> \<open>the record of call \<open>k\<close> is a data row that \<open>parseTransaction\<close> accepts\<close>
  "valid_row F sourceFile csvReader k =
     (case csvReader k of
        Read_ok rec \<Rightarrow>
          \<not> skipped csvReader k \<and> expectedColumnCount \<le> length rec \<and>
          \<not> isl (parseTransaction F rec (Suc k) sourceFile)
      | _ \<Rightarrow> False)"

definition is_foreign :: "Transaction \<Rightarrow> bool" where
  \<comment> \<open>the transaction carries a foreign currency and a non-zero foreign amount\<close>
  "is_foreign t = (ForeignCurrency t \<noteq> [] \<and> float_ne_zero (ForeignAmount t))"

definition is_fee :: "Transaction \<Rightarrow> bool" where
  "is_fee t = Contains (Payee t) feeIdentifier"

definition memo_of :: "Transaction list \<Rightarrow> nat \<Rightarrow> string" where
  "memo_of ts i =
     (if is_fee (ts ! i) \<and> 0 < i \<and> is_foreign (ts ! (i - 1))
      then ''Fee for transaction: '' @ Payee (ts ! (i - 1)) else [])"

definition baseKey :: "float_lib \<Rightarrow> Transaction \<Rightarrow> string" where
  \<comment> \<open>the key of the occurrence map that \<open>generateImportID\<close> builds for a transaction\<close>
  "baseKey F t = Sprintf_d (mul1000_int64 F (Amount t)) @ '':'' @ Format_iso (Date t)"

definition occurrence :: "float_lib \<Rightarrow> Transaction list \<Rightarrow> nat \<Rightarrow> int" where
  \<comment> \<open>one more than the number of earlier transactions with the same milliunits and the
     same ISO date\<close>
  "occurrence F ts i =
     1 + int (length (filter
           (\<lambda>t. mul1000_int64 F (Amount t) = mul1000_int64 F (Amount (ts ! i)) \<and>
                Format_iso (Date t) = Format_iso (Date (ts ! i)))
           (take i ts)))"

definition digits_value :: "string \<Rightarrow> nat" where
  "digits_value s = foldl (\<lambda>a c. 10 * a + digit_val c) 0 s"

definition key_count :: "float_lib \<Rightarrow> string \<Rightarrow> Transaction list \<Rightarrow> nat" where
  "key_count F key ts = length (filter (\<lambda>t. baseKey F t = key) ts)"

definition id_of :: "float_lib \<Rightarrow> Transaction list \<Rightarrow> nat \<Rightarrow> string" where
  "id_of F ts i =
     ''YNAB:'' @ Sprintf_d (mul1000_int64 F (Amount (ts ! i))) @ '':'' @
     Format_iso (Date (ts ! i)) @ '':'' @
     Sprintf_d (1 + int (key_count F (baseKey F (ts ! i)) (take i ts)))"

definition is_Read_err :: "read_result \<Rightarrow> bool" where
  "is_Read_err rr = (case rr of Read_err rec msg \<Rightarrow> True | _ \<Rightarrow> False)"

definition row_problem :: "float_lib \<Rightarrow> string list \<Rightarrow> bool" where
  \<comment> \<open>the defects of a data row that the parser reports: too few columns, a date that
      is empty or malformed, an empty payee, an amount that is empty or malformed\<close>
  "row_problem F rec =
     (length rec < expectedColumnCount \<or>
      isl (parseDate (TrimSpace (rec ! colVoucherDate))) \<or>
      isl (parseDate (TrimSpace (rec ! colReceiptDate))) \<or>
      TrimSpace (rec ! colPayee) = [] \<or>
      isl (parseAmount F (TrimSpace (rec ! colAmount))))"

definition clean_statement :: "read_result list" where
  "clean_statement =
     preamble @ [Read_ok row_foreign, Read_ok row_short, Read_ok row_bad_date, Read_ok row_test]"

definition clean_result :: ParseResult where
  "clean_result =
   \<lparr>Transactions =
      [\<lparr>Date = \<lparr>year = 2026, month = 1, day = 28\<rparr>,
        PostingDate = \<lparr>year = 2026, month = 1, day = 29\<rparr>, Payee = ''RECALL'',
        Memo = [], Amount = 0xC024000000000000, Currency = ''EUR'',
        ForeignAmount = 0xC029000000000000, ForeignCurrency = ''USD'',
        ExchangeRate = 0, ImportID = ''YNAB:-10000:2026-01-28:1'',
        SourceFile = ''statement.csv'', SourceLine = 6\<rparr>,
       \<lparr>Date = \<lparr>year = 2026, month = 1, day = 5\<rparr>,
        PostingDate = \<lparr>year = 2026, month = 1, day = 5\<rparr>, Payee = ''Test'',
        Memo = [], Amount = 0xC024000000000000, Currency = ''EUR'',
        ForeignAmount = 0, ForeignCurrency = [], ExchangeRate = 0,
        ImportID = ''YNAB:-10000:2026-01-05:1'',
        SourceFile = ''statement.csv'', SourceLine = 9\<rparr>],
    Errors =
      [\<lparr>Line = 7, Row = row_short, Error = ExpectedColumns 8 2\<rparr>,
       \<lparr>Line = 8, Row = row_bad_date, Error = InvalidVoucherDate InvalidDateFormat\<rparr>],
    TotalRows = 4, SuccessfulRows = 2\<rparr>"

definition two_digits :: "nat \<Rightarrow> string" where
  "two_digits n = [digit_char (n div 10), digit_char (n mod 10)]"

definition four_digits :: "nat \<Rightarrow> string" where
  "four_digits n =
     [digit_char (n div 1000), digit_char (n div 100 mod 10), digit_char (n div 10 mod 10),
      digit_char (n mod 10)]"


definition relabel :: "string \<Rightarrow> Transaction \<Rightarrow> Transaction" where
  \<comment> \<open>the same transaction, of another source file\<close>
  "relabel src t = t\<lparr>SourceFile := src\<rparr>"

definition relabel_state :: "string \<Rightarrow> loop_state \<Rightarrow> loop_state" where
  "relabel_state src st =
     st\<lparr>result := (result st)\<lparr>Transactions := map (relabel src) (Transactions (result st))\<rparr>,
        previousTransaction := map_option (relabel src) (previousTransaction st)\<rparr>"

section \<open>Running the loop\<close>

lemma run_Nil [simp]: "run F src [] st = st"
  by (simp add: run_def)

lemma run_Cons [simp]: "run F src (rr # rrs) st = run F src rrs (iteration F src rr st)"
  by (simp add: run_def)

lemma run_snoc [simp]: "run F src (rrs @ [rr]) st = iteration F src rr (run F src rrs st)"
  by (simp add: run_def)

lemma run_append: "run F src (xs @ ys) st = run F src ys (run F src xs st)"
  by (simp add: run_def)

lemma reads_0 [simp]: "reads rd 0 = []"
  by (simp add: reads_def)

lemma reads_Suc [simp]: "reads rd (Suc n) = reads rd n @ [rd n]"
  by (simp add: reads_def)

lemma length_reads [simp]: "length (reads rd n) = n"
  by (simp add: reads_def)

lemma lineNumber_iteration [simp]:
  "lineNumber (iteration F src rr st) = lineNumber st + 1"
  by (simp add: iteration_def Let_def split: read_result.splits sum.splits prod.splits)

lemma lineNumber_run [simp]: "lineNumber (run F src rrs st) = lineNumber st + length rrs"
  by (induction rrs arbitrary: st) simp_all

lemma parse_loop_unroll:
  assumes "\<forall>j<n. \<not> c (lineNumber st + j) \<and> rd (lineNumber st + j) \<noteq> Read_EOF"
  shows "parse_loop F c rd src st =
         parse_loop F c rd src (run F src (map (\<lambda>j. rd (lineNumber st + j)) [0..<n]) st)"
  using assms
proof (induction n)
  case 0
  then show ?case by simp
next
  case (Suc n)
  let ?s = "run F src (map (\<lambda>j. rd (lineNumber st + j)) [0..<n]) st"
  have ln: "lineNumber ?s = lineNumber st + n" by simp
  from Suc.prems have nc: "\<not> c (lineNumber st + n)" and ne: "rd (lineNumber st + n) \<noteq> Read_EOF"
    by simp_all
  have "parse_loop F c rd src st = parse_loop F c rd src ?s"
    using Suc by simp
  also have "\<dots> = parse_loop F c rd src (iteration F src (rd (lineNumber st + n)) ?s)"
    using nc ne by (subst parse_loop.simps) (simp add: ln split: read_result.splits)
  finally show ?case by simp
qed

lemma parse_loop_stops:
  assumes "parse_loop F c rd src st = Some y"
  shows "\<exists>n. (\<forall>j<n. \<not> c (lineNumber st + j) \<and> rd (lineNumber st + j) \<noteq> Read_EOF) \<and>
             (c (lineNumber st + n) \<or> rd (lineNumber st + n) = Read_EOF)"
  using assms
proof (induction rule: parse_loop.raw_induct[rotated 1, consumes 1])
  case (1 parse_loop' F c rd src st y)
  show ?case
  proof (cases "c (lineNumber st) \<or> rd (lineNumber st) = Read_EOF")
    case True
    then show ?thesis by (intro exI[of _ 0]) simp
  next
    case False
    with 1(2) have "parse_loop' F c rd src (iteration F src (rd (lineNumber st)) st) = Some y"
      by (simp split: read_result.splits)
    from 1(1)[OF this] obtain n where
      n: "\<forall>j<n. \<not> c (Suc (lineNumber st) + j) \<and> rd (Suc (lineNumber st) + j) \<noteq> Read_EOF"
         "c (Suc (lineNumber st) + n) \<or> rd (Suc (lineNumber st) + n) = Read_EOF"
      by auto
    have "\<forall>j<Suc n. \<not> c (lineNumber st + j) \<and> rd (lineNumber st + j) \<noteq> Read_EOF"
    proof (intro allI impI)
      fix j assume "j < Suc n"
      show "\<not> c (lineNumber st + j) \<and> rd (lineNumber st + j) \<noteq> Read_EOF"
      proof (cases j)
        case 0
        with False show ?thesis by simp
      next
        case (Suc k)
        with \<open>j < Suc n\<close> n(1) show ?thesis by simp
      qed
    qed
    moreover from n(2) have "c (lineNumber st + Suc n) \<or> rd (lineNumber st + Suc n) = Read_EOF"
      by simp
    ultimately show ?thesis by blast
  qed
qed

text \<open>
  What a call of \<open>Parse\<close> returns, from where the loop ends: at the first iteration
  that finds the context done or reads \<open>io.EOF\<close>.
\<close>

lemma Parse_cancelled:
  assumes "\<forall>j<n. \<not> or_Background ctx j \<and> rd j \<noteq> Read_EOF" and "or_Background ctx n"
  shows "Parse F ctx rd src = Some (Inl ParsingCancelled)"
proof -
  have "Parse F ctx rd src =
        parse_loop F (or_Background ctx) rd src (run F src (reads rd n) initial_state)"
    unfolding Parse_def using parse_loop_unroll[of n "or_Background ctx" initial_state rd F src] assms(1)
    by (simp add: initial_state_def reads_def)
  also have "\<dots> = Some (Inl ParsingCancelled)"
    using assms(2) by (subst parse_loop.simps) (simp add: initial_state_def)
  finally show ?thesis .
qed

lemma Parse_returns:
  assumes "\<forall>j<n. \<not> or_Background ctx j \<and> rd j \<noteq> Read_EOF"
    and "\<not> or_Background ctx n" and "rd n = Read_EOF"
  shows "Parse F ctx rd src = Some (Inr (result (run F src (reads rd n) initial_state)))"
proof -
  have "Parse F ctx rd src =
        parse_loop F (or_Background ctx) rd src (run F src (reads rd n) initial_state)"
    unfolding Parse_def using parse_loop_unroll[of n "or_Background ctx" initial_state rd F src] assms(1)
    by (simp add: initial_state_def reads_def)
  also have "\<dots> = Some (Inr (result (run F src (reads rd n) initial_state)))"
    using assms(2,3) by (subst parse_loop.simps) (simp add: initial_state_def)
  finally show ?thesis .
qed

lemma Parse_Some_cases:
  assumes "Parse F ctx rd src = Some y"
  obtains (cancelled) n where "\<forall>j<n. \<not> or_Background ctx j \<and> rd j \<noteq> Read_EOF"
      and "or_Background ctx n" and "y = Inl ParsingCancelled"
    | (eof) n where "\<forall>j<n. \<not> or_Background ctx j \<and> rd j \<noteq> Read_EOF"
      and "\<not> or_Background ctx n" and "rd n = Read_EOF"
      and "y = Inr (result (run F src (reads rd n) initial_state))"
proof -
  from assms have "parse_loop F (or_Background ctx) rd src initial_state = Some y"
    by (simp add: Parse_def)
  from parse_loop_stops[OF this] obtain n where
    n: "\<forall>j<n. \<not> or_Background ctx j \<and> rd j \<noteq> Read_EOF"
       "or_Background ctx n \<or> rd n = Read_EOF"
    by (auto simp: initial_state_def)
  show thesis
  proof (cases "or_Background ctx n")
    case True
    with Parse_cancelled[OF n(1) True, of F src] assms cancelled[OF n(1)] show thesis by simp
  next
    case False
    with n(2) have e: "rd n = Read_EOF" by simp
    with Parse_returns[OF n(1) False e, of F src] assms eof[OF n(1) False e] show thesis by simp
  qed
qed

lemma Parse_Inr:
  assumes "Parse F ctx rd src = Some (Inr res)"
  obtains n where "\<forall>j<n. \<not> or_Background ctx j \<and> rd j \<noteq> Read_EOF"
      and "\<not> or_Background ctx n" and "rd n = Read_EOF"
      and "res = result (run F src (reads rd n) initial_state)"
  using assms by (rule Parse_Some_cases) simp_all

subsection \<open>One iteration, case by case\<close>

lemma iteration_EOF:
  "iteration F src Read_EOF st = st\<lparr>lineNumber := lineNumber st + 1\<rparr>"
  by (simp add: iteration_def Let_def)

lemma iteration_fault:
  "iteration F src (Read_err rec msg) st =
     st\<lparr>lineNumber := lineNumber st + 1,
        result := add_error (lineNumber st + 1) rec (CsvReadError msg) (result st)\<rparr>"
  by (simp add: iteration_def Let_def)

lemma iteration_skip:
  assumes "skips st rec"
  shows "\<exists>h. iteration F src (Read_ok rec) st =
           st\<lparr>lineNumber := lineNumber st + 1, headerSkipped := h\<rparr> \<and> (headerSkipped st \<longrightarrow> h)"
proof (cases "headerSkipped st")
  case True
  with assms have "is_blank rec \<or> is_balance rec" by (simp add: skips_def)
  with True have "iteration F src (Read_ok rec) st =
      st\<lparr>lineNumber := lineNumber st + 1, headerSkipped := True\<rparr>"
    by (auto simp: iteration_def Let_def)
  then show ?thesis by blast
next
  case False
  show ?thesis
  proof (cases "lineNumber st < 4")
    case True
    with False have "iteration F src (Read_ok rec) st =
        st\<lparr>lineNumber := lineNumber st + 1, headerSkipped := False\<rparr>"
      by (simp add: iteration_def Let_def)
    with False show ?thesis by blast
  next
    case nl: False
    with False assms have "iteration F src (Read_ok rec) st =
        st\<lparr>lineNumber := lineNumber st + 1, headerSkipped := True\<rparr>"
      by (auto simp: iteration_def skips_def Let_def)
    then show ?thesis by blast
  qed
qed

lemma iteration_short:
  assumes "\<not> skips st rec" and "length rec < expectedColumnCount"
  shows "iteration F src (Read_ok rec) st =
     st\<lparr>lineNumber := lineNumber st + 1, headerSkipped := True,
        result := (add_error (lineNumber st + 1) rec
                     (ExpectedColumns expectedColumnCount (length rec)) (result st))
                  \<lparr>TotalRows := TotalRows (result st) + 1\<rparr>\<rparr>"
  using assms by (auto simp: iteration_def skips_def Let_def)

lemma iteration_invalid:
  assumes "\<not> skips st rec" and "expectedColumnCount \<le> length rec"
    and "parseTransaction F rec (lineNumber st + 1) src = Inl err"
  shows "iteration F src (Read_ok rec) st =
     st\<lparr>lineNumber := lineNumber st + 1, headerSkipped := True,
        result := (add_error (lineNumber st + 1) rec err (result st))
                  \<lparr>TotalRows := TotalRows (result st) + 1\<rparr>\<rparr>"
  using assms by (auto simp: iteration_def skips_def Let_def)

lemma iteration_valid:
  assumes "\<not> skips st rec" and "expectedColumnCount \<le> length rec"
    and "parseTransaction F rec (lineNumber st + 1) src = Inr parsed"
  shows "iteration F src (Read_ok rec) st =
     st\<lparr>lineNumber := lineNumber st + 1, headerSkipped := True,
        result := (result st)
                  \<lparr>Transactions := Transactions (result st) @ [finish F st parsed],
                   TotalRows := TotalRows (result st) + 1,
                   SuccessfulRows := SuccessfulRows (result st) + 1\<rparr>,
        occurrenceMap :=
          snd (generateImportID F (associate_fee (previousTransaction st) parsed) (occurrenceMap st)),
        previousTransaction := Some (finish F st parsed)\<rparr>"
  using assms by (auto simp: iteration_def skips_def finish_def Let_def split: prod.splits)

lemma iteration_cases [case_names eof fault skip short invalid valid]:
  obtains
    (eof) "rr = Read_EOF"
  | (fault) rec msg where "rr = Read_err rec msg"
  | (skip) rec where "rr = Read_ok rec" and "skips st rec"
  | (short) rec where "rr = Read_ok rec" and "\<not> skips st rec"
      and "length rec < expectedColumnCount"
  | (invalid) rec err where "rr = Read_ok rec" and "\<not> skips st rec"
      and "expectedColumnCount \<le> length rec"
      and "parseTransaction F rec (lineNumber st + 1) src = Inl err"
  | (valid) rec parsed where "rr = Read_ok rec" and "\<not> skips st rec"
      and "expectedColumnCount \<le> length rec"
      and "parseTransaction F rec (lineNumber st + 1) src = Inr parsed"
proof (cases rr)
  case (Read_ok rec)
  show thesis
  proof (cases "skips st rec")
    case True
    with Read_ok skip show thesis by blast
  next
    case ns: False
    show thesis
    proof (cases "length rec < expectedColumnCount")
      case True
      with Read_ok ns short show thesis by blast
    next
      case False
      then have le: "expectedColumnCount \<le> length rec" by simp
      show thesis
      proof (cases "parseTransaction F rec (lineNumber st + 1) src")
        case (Inl err)
        with Read_ok ns le invalid show thesis by blast
      next
        case (Inr parsed)
        with Read_ok ns le valid show thesis by blast
      qed
    qed
  qed
next
  case (Read_err rec msg)
  with fault show thesis by blast
next
  case Read_EOF
  with eof show thesis by blast
qed

subsection \<open>What parseTransaction returns for a record of eight fields or more\<close>

lemma index_in_range: "i < length rec \<Longrightarrow> index rec i k = k (rec ! i)"
  by (simp add: index_def)

lemma index_out_of_range: "length rec \<le> i \<Longrightarrow> index rec i k = Inl IndexOutOfRange"
  by (simp add: index_def)

lemma parseTransaction_explicit:
  assumes "expectedColumnCount \<le> length rec"
  shows "parseTransaction F rec l src =
    (case parseDate (TrimSpace (rec ! 0)) of
       Inl err \<Rightarrow> Inl (InvalidVoucherDate err)
     | Inr voucherDate \<Rightarrow>
     (case parseDate (TrimSpace (rec ! 1)) of
       Inl err \<Rightarrow> Inl (InvalidReceiptDate err)
     | Inr receiptDate \<Rightarrow>
       if TrimSpace (rec ! 2) = [] then Inl PayeeRequired
       else (case parseAmount F (TrimSpace (rec ! 6)) of
         Inl err \<Rightarrow> Inl (InvalidAmount err)
       | Inr amount \<Rightarrow>
           let foreign = (TrimSpace (rec ! 3) \<noteq> [] \<and> TrimSpace (rec ! 3) \<noteq> ''EUR'') in
           Inr \<lparr>Date = voucherDate, PostingDate = receiptDate, Payee = TrimSpace (rec ! 2),
                Memo = [], Amount = amount,
                Currency = (if TrimSpace (rec ! 7) \<noteq> [] then TrimSpace (rec ! 7) else ''EUR''),
                ForeignAmount =
                  (if foreign then
                     (case parseAmount F (TrimSpace (rec ! 4)) of Inr x \<Rightarrow> x | Inl err \<Rightarrow> 0)
                   else 0),
                ForeignCurrency = (if foreign then TrimSpace (rec ! 3) else []),
                ExchangeRate =
                  (if foreign then
                     (case parseExchangeRate F (TrimSpace (rec ! 5)) of
                        Inr x \<Rightarrow> if float_gt_zero x then x else 0
                      | Inl err \<Rightarrow> 0)
                   else 0),
                ImportID = [], SourceFile = src, SourceLine = l\<rparr>)))"
proof -
  from assms have len: "8 \<le> length rec" by (simp add: expectedColumnCount_def)
  then have i: "\<And>k. index rec colVoucherDate k = k (rec ! 0)"
    "\<And>k. index rec colReceiptDate k = k (rec ! 1)"
    "\<And>k. index rec colPayee k = k (rec ! 2)"
    "\<And>k. index rec colForeignCurrency k = k (rec ! 3)"
    "\<And>k. index rec colForeignAmount k = k (rec ! 4)"
    "\<And>k. index rec colExchangeRate k = k (rec ! 5)"
    "\<And>k. index rec colAmount k = k (rec ! 6)"
    "\<And>k. index rec colCurrency k = k (rec ! 7)"
    by (auto simp: index_def colVoucherDate_def colReceiptDate_def colPayee_def
      colForeignCurrency_def colForeignAmount_def colExchangeRate_def colAmount_def
      colCurrency_def)
  note unf = parseTransaction_def i Let_def Transaction_zero_def
  show ?thesis
  proof (cases "parseDate (TrimSpace (rec ! 0))")
    case Inl
    then show ?thesis by (simp add: unf)
  next
    case d: (Inr voucherDate)
    show ?thesis
    proof (cases "parseDate (TrimSpace (rec ! 1))")
      case Inl
      with d show ?thesis by (simp add: unf)
    next
      case pd: (Inr receiptDate)
      show ?thesis
      proof (cases "TrimSpace (rec ! 2) = []")
        case True
        with d pd show ?thesis by (simp add: unf)
      next
        case py: False
        show ?thesis
        proof (cases "parseAmount F (TrimSpace (rec ! 6))")
          case Inl
          with d pd py show ?thesis by (simp add: unf)
        next
          case am: (Inr amount)
          show ?thesis
          proof (cases "TrimSpace (rec ! 3) = [] \<or> TrimSpace (rec ! 3) = ''EUR''")
            case True
            with d pd py am show ?thesis by (auto simp: unf)
          next
            case False
            then have fc: "TrimSpace (rec ! 3) \<noteq> []" "TrimSpace (rec ! 3) \<noteq> ''EUR''"
              by simp_all
            show ?thesis
            proof (cases "parseAmount F (TrimSpace (rec ! 4))")
              case fa: (Inl e1)
              show ?thesis
              proof (cases "parseExchangeRate F (TrimSpace (rec ! 5))")
                case Inl
                with d pd py am fc fa show ?thesis by (simp add: unf)
              next
                case Inr
                with d pd py am fc fa show ?thesis by (simp add: unf)
              qed
            next
              case fa: (Inr x1)
              show ?thesis
              proof (cases "parseExchangeRate F (TrimSpace (rec ! 5))")
                case Inl
                with d pd py am fc fa show ?thesis by (simp add: unf)
              next
                case Inr
                with d pd py am fc fa show ?thesis by (simp add: unf)
              qed
            qed
          qed
        qed
      qed
    qed
  qed
qed

subsection \<open>The state after the first records of a reader\<close>

lemma state_after_0: "state_after F src rd 0 = initial_state"
  by (simp add: state_after_def)

lemma state_after_Suc:
  "state_after F src rd (Suc k) = iteration F src (rd k) (state_after F src rd k)"
  by (simp add: state_after_def)

lemma lineNumber_state_after [simp]: "lineNumber (state_after F src rd k) = k"
  by (simp add: state_after_def initial_state_def)

lemma headerSkipped_iteration:
  "headerSkipped (iteration F src rr st) =
     (headerSkipped st \<or> (is_Read_ok rr \<and> 4 \<le> lineNumber st))"
proof (cases rule: iteration_cases[where rr=rr and st=st and F=F and src=src])
  case eof
  then show ?thesis by (simp add: iteration_EOF is_Read_ok_def)
next
  case (fault rec msg)
  then show ?thesis by (simp add: iteration_fault is_Read_ok_def)
next
  case (skip rec)
  show ?thesis
  proof (cases "headerSkipped st \<or> 4 \<le> lineNumber st")
    case True
    with skip show ?thesis
      by (auto simp: iteration_def Let_def is_Read_ok_def skips_def)
  next
    case False
    with skip show ?thesis
      by (auto simp: iteration_def Let_def is_Read_ok_def)
  qed
next
  case (short rec)
  then show ?thesis by (auto simp: iteration_short is_Read_ok_def skips_def)
next
  case (invalid rec err)
  then show ?thesis by (auto simp: iteration_invalid is_Read_ok_def skips_def)
next
  case (valid rec parsed)
  then show ?thesis by (auto simp: iteration_valid is_Read_ok_def skips_def)
qed

lemma past_header_0: "past_header rd 0 = False"
  by (simp add: past_header_def)

lemma past_header_Suc:
  "past_header rd (Suc k) = (past_header rd k \<or> (4 \<le> k \<and> is_Read_ok (rd k)))"
  by (simp add: past_header_def)

lemma past_header_iff: "past_header rd k = (\<exists>j<k. 4 \<le> j \<and> is_Read_ok (rd j))"
  by (auto simp: past_header_def list_ex_iff)

lemma headerSkipped_state_after:
  "headerSkipped (state_after F src rd k) = past_header rd k"
proof (induction k)
  case 0
  show ?case by (simp add: state_after_0 initial_state_def past_header_0)
next
  case (Suc k)
  then show ?case
    by (simp add: state_after_Suc headerSkipped_iteration past_header_Suc conj_commute)
qed

lemma skips_state_after:
  assumes "rd k = Read_ok rec"
  shows "skips (state_after F src rd k) rec = skipped rd k"
proof -
  have "k < 4 \<Longrightarrow> \<not> past_header rd k" by (auto simp: past_header_iff)
  then show ?thesis
    using assms
    by (auto simp: skips_def skipped_def is_column_header_def headerSkipped_state_after)
qed

lemma skipped_Read_ok: "skipped rd k \<Longrightarrow> \<exists>rec. rd k = Read_ok rec"
  by (auto simp: skipped_def split: read_result.splits)

text \<open>The step from \<open>k\<close> to \<open>k + 1\<close> records read, by the class of the record.\<close>

lemma step_EOF:
  assumes "rd k = Read_EOF"
  shows "state_after F src rd (Suc k) = (state_after F src rd k)\<lparr>lineNumber := Suc k\<rparr>"
  using assms by (simp add: state_after_Suc iteration_EOF)

lemma step_fault:
  assumes "rd k = Read_err rec msg"
  shows "state_after F src rd (Suc k) =
    (state_after F src rd k)
    \<lparr>lineNumber := Suc k,
     result := add_error (Suc k) rec (CsvReadError msg) (result (state_after F src rd k))\<rparr>"
  using assms by (simp add: state_after_Suc iteration_fault)

lemma step_skip:
  assumes "skipped rd k"
  shows "\<exists>h. state_after F src rd (Suc k) =
    (state_after F src rd k)\<lparr>lineNumber := Suc k, headerSkipped := h\<rparr>"
proof -
  from assms obtain rec where rec: "rd k = Read_ok rec" by (auto dest: skipped_Read_ok)
  with assms have "skips (state_after F src rd k) rec" by (simp add: skips_state_after)
  from iteration_skip[OF this, of F src] rec show ?thesis
    by (auto simp: state_after_Suc)
qed

lemma step_short:
  assumes "data_row rd k rec" and "length rec < expectedColumnCount"
  shows "state_after F src rd (Suc k) =
    (state_after F src rd k)
    \<lparr>lineNumber := Suc k, headerSkipped := True,
     result := (add_error (Suc k) rec (ExpectedColumns expectedColumnCount (length rec))
                  (result (state_after F src rd k)))
               \<lparr>TotalRows := TotalRows (result (state_after F src rd k)) + 1\<rparr>\<rparr>"
proof -
  from assms(1) have rec: "rd k = Read_ok rec" and "\<not> skipped rd k"
    by (simp_all add: data_row_def)
  then have "\<not> skips (state_after F src rd k) rec" by (simp add: skips_state_after)
  from iteration_short[OF this assms(2), of F src] rec show ?thesis
    by (simp add: state_after_Suc)
qed

lemma step_invalid:
  assumes "data_row rd k rec" and "expectedColumnCount \<le> length rec"
    and "parseTransaction F rec (Suc k) src = Inl err"
  shows "state_after F src rd (Suc k) =
    (state_after F src rd k)
    \<lparr>lineNumber := Suc k, headerSkipped := True,
     result := (add_error (Suc k) rec err (result (state_after F src rd k)))
               \<lparr>TotalRows := TotalRows (result (state_after F src rd k)) + 1\<rparr>\<rparr>"
proof -
  from assms(1) have rec: "rd k = Read_ok rec" and "\<not> skipped rd k"
    by (simp_all add: data_row_def)
  then have "\<not> skips (state_after F src rd k) rec" by (simp add: skips_state_after)
  from iteration_invalid[OF this assms(2), of F src err] assms(3) rec show ?thesis
    by (simp add: state_after_Suc)
qed

lemma step_valid:
  assumes "data_row rd k rec" and "expectedColumnCount \<le> length rec"
    and "parseTransaction F rec (Suc k) src = Inr parsed"
  shows "state_after F src rd (Suc k) =
    (state_after F src rd k)
    \<lparr>lineNumber := Suc k, headerSkipped := True,
     result := (result (state_after F src rd k))
       \<lparr>Transactions := Transactions (result (state_after F src rd k)) @
                         [finish F (state_after F src rd k) parsed],
        TotalRows := TotalRows (result (state_after F src rd k)) + 1,
        SuccessfulRows := SuccessfulRows (result (state_after F src rd k)) + 1\<rparr>,
     occurrenceMap :=
       snd (generateImportID F
              (associate_fee (previousTransaction (state_after F src rd k)) parsed)
              (occurrenceMap (state_after F src rd k))),
     previousTransaction := Some (finish F (state_after F src rd k) parsed)\<rparr>"
proof -
  from assms(1) have rec: "rd k = Read_ok rec" and "\<not> skipped rd k"
    by (simp_all add: data_row_def)
  then have "\<not> skips (state_after F src rd k) rec" by (simp add: skips_state_after)
  from iteration_valid[OF this assms(2), of F src parsed] assms(3) rec show ?thesis
    by (simp add: state_after_Suc)
qed

lemma row_cases [case_names eof fault skip short invalid valid]:
  obtains
    (eof) "rd k = Read_EOF"
  | (fault) rec msg where "rd k = Read_err rec msg"
  | (skip) "skipped rd k"
  | (short) rec where "data_row rd k rec" and "length rec < expectedColumnCount"
  | (invalid) rec err where "data_row rd k rec" and "expectedColumnCount \<le> length rec"
      and "parseTransaction F rec (Suc k) src = Inl err"
  | (valid) rec parsed where "data_row rd k rec" and "expectedColumnCount \<le> length rec"
      and "parseTransaction F rec (Suc k) src = Inr parsed"
proof (cases "rd k")
  case (Read_ok rec)
  show thesis
  proof (cases "skipped rd k")
    case True
    with skip show thesis .
  next
    case False
    with Read_ok have dr: "data_row rd k rec" by (simp add: data_row_def)
    show thesis
    proof (cases "length rec < expectedColumnCount")
      case True
      with dr short show thesis by blast
    next
      case False
      then have le: "expectedColumnCount \<le> length rec" by simp
      show thesis
      proof (cases "parseTransaction F rec (Suc k) src")
        case (Inl err)
        with dr le invalid show thesis by blast
      next
        case (Inr parsed)
        with dr le valid show thesis by blast
      qed
    qed
  qed
next
  case (Read_err rec msg)
  with fault show thesis by blast
next
  case Read_EOF
  with eof show thesis by blast
qed

subsection \<open>Trimming a string that starts and ends with a visible ASCII character\<close>

lemma spaceRunes_first: "e \<in> set spaceRunes \<Longrightarrow> e \<noteq> [] \<and> 128 \<le> (of_char (hd e) :: nat)"
  by (auto simp: spaceRunes_def)

lemma spaceRunes_last: "e \<in> set spaceRunes \<Longrightarrow> e \<noteq> [] \<and> 128 \<le> (of_char (last e) :: nat)"
  by (auto simp: spaceRunes_def)

lemma leadingSpace_plain:
  assumes "plain c"
  shows "leadingSpace (c # cs) = 0"
proof -
  have "\<not> prefix e (c # cs)" if "e \<in> set spaceRunes" for e
  proof
    assume p: "prefix e (c # cs)"
    from spaceRunes_first[OF that] obtain a as where e: "e = a # as" and "128 \<le> (of_char a :: nat)"
      by (cases e) auto
    with p assms show False by (simp add: plain_def)
  qed
  then have "find (\<lambda>e. prefix e (c # cs)) spaceRunes = None"
    by (simp add: find_None_iff)
  with assms show ?thesis by (simp add: leadingSpace_def plain_def)
qed

lemma trailingSpace_plain:
  assumes "s \<noteq> []" and "plain (last s)"
  shows "trailingSpace s = 0"
proof -
  have "\<not> suffix e s" if "e \<in> set spaceRunes" for e
  proof
    assume "suffix e s"
    then obtain zs where s: "s = zs @ e" by (auto simp: suffix_def)
    from spaceRunes_last[OF that] have "e \<noteq> []" and "128 \<le> (of_char (last e) :: nat)"
      by simp_all
    with s assms(2) show False by (simp add: plain_def)
  qed
  then have "find (\<lambda>e. suffix e s) spaceRunes = None"
    by (simp add: find_None_iff)
  with assms show ?thesis by (simp add: trailingSpace_def plain_def)
qed

lemma TrimSpace_Nil [simp]: "TrimSpace [] = []"
  by (simp add: TrimSpace_def leadingSpace_def trailingSpace_def)

lemma TrimSpace_plain:
  assumes "s \<noteq> []" and "plain (hd s)" and "plain (last s)"
  shows "TrimSpace s = s"
proof -
  from assms(1,2) have "leadingSpace s = 0" by (cases s) (simp_all add: leadingSpace_plain)
  then have "TrimLeft s = s" by simp
  moreover from assms(1,3) have "trailingSpace s = 0" by (rule trailingSpace_plain)
  then have "TrimRight s = s" by simp
  ultimately show ?thesis by (simp add: TrimSpace_def)
qed

section \<open>A sample statement, run through the parser\<close>

lemma iteration_metadata_explicit:
  assumes "l < 4"
  shows "iteration F src (Read_ok rec)
           \<lparr>result = r, lineNumber = l, headerSkipped = False, occurrenceMap = om,
            previousTransaction = prev\<rparr> =
         \<lparr>result = r, lineNumber = Suc l, headerSkipped = False, occurrenceMap = om,
          previousTransaction = prev\<rparr>"
  using assms by (simp add: iteration_def Let_def)

lemma iteration_header_explicit:
  assumes "4 \<le> l" and "rec \<noteq> []" and "Contains (rec ! 0) ''Voucher date''"
  shows "iteration F src (Read_ok rec)
           \<lparr>result = r, lineNumber = l, headerSkipped = False, occurrenceMap = om,
            previousTransaction = prev\<rparr> =
         \<lparr>result = r, lineNumber = Suc l, headerSkipped = True, occurrenceMap = om,
          previousTransaction = prev\<rparr>"
  using assms by (simp add: iteration_def Let_def)

lemma iteration_skip_explicit:
  assumes "is_blank rec \<or> is_balance rec"
  shows "iteration F src (Read_ok rec)
           \<lparr>result = r, lineNumber = l, headerSkipped = True, occurrenceMap = om,
            previousTransaction = prev\<rparr> =
         \<lparr>result = r, lineNumber = Suc l, headerSkipped = True, occurrenceMap = om,
          previousTransaction = prev\<rparr>"
  using assms by (auto simp: iteration_def Let_def)

lemma iteration_fault_explicit:
  "iteration F src (Read_err rec msg)
     \<lparr>result = \<lparr>Transactions = ts, Errors = es, TotalRows = n, SuccessfulRows = m\<rparr>,
      lineNumber = l, headerSkipped = h, occurrenceMap = om, previousTransaction = prev\<rparr> =
   \<lparr>result = \<lparr>Transactions = ts,
               Errors = es @ [\<lparr>Line = Suc l, Row = rec, Error = CsvReadError msg\<rparr>],
               TotalRows = n, SuccessfulRows = m\<rparr>,
    lineNumber = Suc l, headerSkipped = h, occurrenceMap = om, previousTransaction = prev\<rparr>"
  by (simp add: iteration_def Let_def add_error_def)

lemma iteration_short_explicit:
  assumes "\<not> is_blank rec" and "\<not> is_balance rec" and "length rec < expectedColumnCount"
  shows "iteration F src (Read_ok rec)
     \<lparr>result = \<lparr>Transactions = ts, Errors = es, TotalRows = n, SuccessfulRows = m\<rparr>,
      lineNumber = l, headerSkipped = True, occurrenceMap = om, previousTransaction = prev\<rparr> =
   \<lparr>result = \<lparr>Transactions = ts,
               Errors = es @ [\<lparr>Line = Suc l, Row = rec,
                               Error = ExpectedColumns expectedColumnCount (length rec)\<rparr>],
               TotalRows = Suc n, SuccessfulRows = m\<rparr>,
    lineNumber = Suc l, headerSkipped = True, occurrenceMap = om, previousTransaction = prev\<rparr>"
  using assms by (simp add: iteration_def Let_def add_error_def)

lemma iteration_invalid_explicit:
  assumes "\<not> is_blank rec" and "\<not> is_balance rec" and "expectedColumnCount \<le> length rec"
    and "parseTransaction F rec (Suc l) src = Inl err"
  shows "iteration F src (Read_ok rec)
     \<lparr>result = \<lparr>Transactions = ts, Errors = es, TotalRows = n, SuccessfulRows = m\<rparr>,
      lineNumber = l, headerSkipped = True, occurrenceMap = om, previousTransaction = prev\<rparr> =
   \<lparr>result = \<lparr>Transactions = ts,
               Errors = es @ [\<lparr>Line = Suc l, Row = rec, Error = err\<rparr>],
               TotalRows = Suc n, SuccessfulRows = m\<rparr>,
    lineNumber = Suc l, headerSkipped = True, occurrenceMap = om, previousTransaction = prev\<rparr>"
  using assms by (simp add: iteration_def Let_def add_error_def)

lemma iteration_valid_explicit:
  assumes "\<not> is_blank rec" and "\<not> is_balance rec" and "expectedColumnCount \<le> length rec"
    and "parseTransaction F rec (Suc l) src = Inr parsed"
    and "generateImportID F (associate_fee prev parsed) om = (importID, om')"
  shows "iteration F src (Read_ok rec)
     \<lparr>result = \<lparr>Transactions = ts, Errors = es, TotalRows = n, SuccessfulRows = m\<rparr>,
      lineNumber = l, headerSkipped = True, occurrenceMap = om, previousTransaction = prev\<rparr> =
   \<lparr>result = \<lparr>Transactions = ts @ [(associate_fee prev parsed)\<lparr>ImportID := importID\<rparr>],
               Errors = es, TotalRows = Suc n, SuccessfulRows = Suc m\<rparr>,
    lineNumber = Suc l, headerSkipped = True, occurrenceMap = om',
    previousTransaction = Some ((associate_fee prev parsed)\<lparr>ImportID := importID\<rparr>)\<rparr>"
  using assms by (simp add: iteration_def Let_def)

lemma run_preamble:
  "run F src preamble initial_state =
   \<lparr>result = \<lparr>Transactions = [], Errors = [], TotalRows = 0, SuccessfulRows = 0\<rparr>,
    lineNumber = 5, headerSkipped = True, occurrenceMap = Map.empty,
    previousTransaction = None\<rparr>"
  by (simp add: preamble_def initial_state_def iteration_metadata_explicit
      iteration_header_explicit Contains_def sublist_code)

lemmas eval_date =
  parseDate_def time_Parse_def getnum_def HasPrefix_def isDigit_def digit_val_def daysIn_def
  isLeap_def Let_def

lemmas eval_trim = TrimSpace_plain plain_def asciiSpace_def

lemma sample_ParseFloat:
  "ParseFloat sample_floats ''-10.00'' = Some 0xC024000000000000"
  "ParseFloat sample_floats ''-12.50'' = Some 0xC029000000000000"
  "ParseFloat sample_floats ''abc'' = None"
  by (simp_all add: sample_floats_def)

lemma sample_mul1000:
  "mul1000_int64 sample_floats 0xC024000000000000 = - 10000"
  "mul1000_int64 sample_floats 0xC029000000000000 = - 12500"
  by (simp_all add: sample_floats_def)

lemma sample_ne_zero:
  "float_ne_zero 0xC029000000000000" "\<not> float_ne_zero 0"
  by (simp_all add: float_ne_zero_def)

lemmas eval_parse =
  parseTransaction_explicit expectedColumnCount_def eval_trim eval_date parseAmount_def
  parseExchangeRate_def sample_ParseFloat float_gt_zero_def float_ne_zero_def isNaN_def

lemma row_usd_class: "\<not> is_blank row_usd" "\<not> is_balance row_usd" "length row_usd = 8"
  by (simp_all add: row_usd_def is_blank_def is_balance_def HasPrefix_def eval_trim)

lemma parse_row_usd:
  "parseTransaction sample_floats row_usd l src =
   Inr \<lparr>Date = \<lparr>year = 2026, month = 1, day = 5\<rparr>,
        PostingDate = \<lparr>year = 2026, month = 1, day = 5\<rparr>, Payee = ''Test'',
        Memo = [], Amount = 0xC024000000000000, Currency = ''USD'',
        ForeignAmount = 0xC029000000000000, ForeignCurrency = ''USD'',
        ExchangeRate = 0, ImportID = [], SourceFile = src, SourceLine = l\<rparr>"
  by (simp add: row_usd_def eval_parse)

lemmas eval_id =
  generateImportID_def sample_mul1000 Format_iso_def appendInt_def Sprintf_d_def digits.simps
  digit_char_def Let_def

lemmas eval_fee = associate_fee_def Contains_def sublist_code feeIdentifier_def sample_ne_zero

lemma usd_run:
  "result (run sample_floats ''statement.csv'' (preamble @ [Read_ok row_usd]) initial_state) =
   \<lparr>Transactions =
    [\<lparr>Date = \<lparr>year = 2026, month = 1, day = 5\<rparr>,
        PostingDate = \<lparr>year = 2026, month = 1, day = 5\<rparr>, Payee = ''Test'',
        Memo = [], Amount = 0xC024000000000000, Currency = ''USD'',
        ForeignAmount = 0xC029000000000000, ForeignCurrency = ''USD'',
        ExchangeRate = 0, ImportID = ''YNAB:-10000:2026-01-05:1'',
        SourceFile = ''statement.csv'', SourceLine = 6\<rparr>],
    Errors = [], TotalRows = 1, SuccessfulRows = 1\<rparr>"
  by (simp add: run_append run_preamble iteration_valid_explicit row_usd_class parse_row_usd
      expectedColumnCount_def eval_id eval_fee)

lemma row_foreign_class:
  "\<not> is_blank row_foreign" "\<not> is_balance row_foreign" "length row_foreign = 8"
  by (simp_all add: row_foreign_def is_blank_def is_balance_def HasPrefix_def eval_trim)

lemma parse_row_foreign:
  "parseTransaction sample_floats row_foreign l src =
   Inr \<lparr>Date = \<lparr>year = 2026, month = 1, day = 28\<rparr>,
        PostingDate = \<lparr>year = 2026, month = 1, day = 29\<rparr>, Payee = ''RECALL'',
        Memo = [], Amount = 0xC024000000000000, Currency = ''EUR'',
        ForeignAmount = 0xC029000000000000, ForeignCurrency = ''USD'',
        ExchangeRate = 0, ImportID = [], SourceFile = src, SourceLine = l\<rparr>"
  by (simp add: row_foreign_def eval_parse)

lemma row_fee_class: "\<not> is_blank row_fee" "\<not> is_balance row_fee" "length row_fee = 8"
  by (simp_all add: row_fee_def is_blank_def is_balance_def HasPrefix_def eval_trim)

lemma parse_row_fee:
  "parseTransaction sample_floats row_fee l src =
   Inr \<lparr>Date = \<lparr>year = 2026, month = 1, day = 28\<rparr>,
        PostingDate = \<lparr>year = 2026, month = 1, day = 29\<rparr>,
        Payee = ''AUSLANDSEINSATZENTGELT'',
        Memo = [], Amount = 0xC024000000000000, Currency = ''EUR'',
        ForeignAmount = 0, ForeignCurrency = [],
        ExchangeRate = 0, ImportID = [], SourceFile = src, SourceLine = l\<rparr>"
  by (simp add: row_fee_def eval_parse)

lemma row_test_class: "\<not> is_blank row_test" "\<not> is_balance row_test" "length row_test = 8"
  by (simp_all add: row_test_def is_blank_def is_balance_def HasPrefix_def eval_trim)

lemma parse_row_test:
  "parseTransaction sample_floats row_test l src =
   Inr \<lparr>Date = \<lparr>year = 2026, month = 1, day = 5\<rparr>,
        PostingDate = \<lparr>year = 2026, month = 1, day = 5\<rparr>, Payee = ''Test'',
        Memo = [], Amount = 0xC024000000000000, Currency = ''EUR'',
        ForeignAmount = 0, ForeignCurrency = [],
        ExchangeRate = 0, ImportID = [], SourceFile = src, SourceLine = l\<rparr>"
  by (simp add: row_test_def eval_parse)

lemma row_short_class: "\<not> is_blank row_short" "\<not> is_balance row_short" "length row_short = 2"
  by (simp_all add: row_short_def is_blank_def is_balance_def HasPrefix_def eval_trim)

lemma row_bad_date_class:
  "\<not> is_blank row_bad_date" "\<not> is_balance row_bad_date" "length row_bad_date = 8"
  by (simp_all add: row_bad_date_def is_blank_def is_balance_def HasPrefix_def eval_trim)

lemma parse_row_bad_date:
  "parseTransaction sample_floats row_bad_date l src = Inl (InvalidVoucherDate InvalidDateFormat)"
  by (simp add: row_bad_date_def eval_parse)

lemma row_balance_class: "is_balance row_balance"
  by (simp add: row_balance_def is_balance_def HasPrefix_def eval_trim)

lemma row_blank_class: "is_blank [[]]"
  by (simp add: is_blank_def)

lemmas eval_rows =
  row_foreign_class parse_row_foreign row_fee_class parse_row_fee row_test_class parse_row_test
  row_short_class row_bad_date_class parse_row_bad_date row_balance_class row_blank_class
  row_usd_class parse_row_usd

lemmas eval_iteration =
  iteration_skip_explicit iteration_fault_explicit iteration_short_explicit
  iteration_invalid_explicit iteration_valid_explicit expectedColumnCount_def

lemma sample_run:
  "result (run sample_floats src sample_statement initial_state) = sample_result src"
  by (simp add: sample_statement_def sample_result_def run_append run_preamble eval_iteration
      eval_rows eval_id eval_fee)

lemma Parse_reader_of:
  assumes "Read_EOF \<notin> set rrs"
  shows "Parse F None (reader_of rrs) src = Some (Inr (result (run F src rrs initial_state)))"
proof -
  have r: "reads (reader_of rrs) (length rrs) = rrs"
    by (rule nth_equalityI) (simp_all add: reads_def reader_of_def)
  have "\<forall>j<length rrs. \<not> or_Background None j \<and> reader_of rrs j \<noteq> Read_EOF"
  proof (intro allI impI conjI)
    fix j assume j: "j < length rrs"
    show "\<not> or_Background None j" by (simp add: or_Background_def Background_def)
    from j have "rrs ! j \<in> set rrs" by simp
    with assms have "rrs ! j \<noteq> Read_EOF" by metis
    with j show "reader_of rrs j \<noteq> Read_EOF" by (simp add: reader_of_def)
  qed
  moreover have "\<not> or_Background None (length rrs)"
    by (simp add: or_Background_def Background_def)
  moreover have "reader_of rrs (length rrs) = Read_EOF"
    by (simp add: reader_of_def)
  ultimately show ?thesis
    using Parse_returns[of "length rrs" None "reader_of rrs" F src] by (simp add: r)
qed

lemma sample_Parse:
  "Parse sample_floats None (reader_of sample_statement) src = Some (Inr (sample_result src))"
proof -
  have "Read_EOF \<notin> set sample_statement"
    by (simp add: sample_statement_def preamble_def)
  then show ?thesis by (simp add: Parse_reader_of sample_run)
qed

section \<open>Where the transactions and the errors of a result come from\<close>

lemma parseTransaction_Inr:
  assumes "expectedColumnCount \<le> length rec" and "parseTransaction F rec l src = Inr p"
  obtains voucherDate receiptDate amount where
    "parseDate (TrimSpace (rec ! 0)) = Inr voucherDate"
    "parseDate (TrimSpace (rec ! 1)) = Inr receiptDate"
    "TrimSpace (rec ! 2) \<noteq> []"
    "parseAmount F (TrimSpace (rec ! 6)) = Inr amount"
    "p = \<lparr>Date = voucherDate, PostingDate = receiptDate, Payee = TrimSpace (rec ! 2),
          Memo = [], Amount = amount,
          Currency = (if TrimSpace (rec ! 7) \<noteq> [] then TrimSpace (rec ! 7) else ''EUR''),
          ForeignAmount =
            (if TrimSpace (rec ! 3) \<noteq> [] \<and> TrimSpace (rec ! 3) \<noteq> ''EUR'' then
               (case parseAmount F (TrimSpace (rec ! 4)) of Inr x \<Rightarrow> x | Inl err \<Rightarrow> 0)
             else 0),
          ForeignCurrency =
            (if TrimSpace (rec ! 3) \<noteq> [] \<and> TrimSpace (rec ! 3) \<noteq> ''EUR''
             then TrimSpace (rec ! 3) else []),
          ExchangeRate =
            (if TrimSpace (rec ! 3) \<noteq> [] \<and> TrimSpace (rec ! 3) \<noteq> ''EUR'' then
               (case parseExchangeRate F (TrimSpace (rec ! 5)) of
                  Inr x \<Rightarrow> if float_gt_zero x then x else 0
                | Inl err \<Rightarrow> 0)
             else 0),
          ImportID = [], SourceFile = src, SourceLine = l\<rparr>"
proof (cases "parseDate (TrimSpace (rec ! 0))")
  case (Inl e)
  with assms show thesis by (simp add: parseTransaction_explicit)
next
  case d: (Inr voucherDate)
  show thesis
  proof (cases "parseDate (TrimSpace (rec ! 1))")
    case (Inl e)
    with assms d show thesis by (simp add: parseTransaction_explicit)
  next
    case pd: (Inr receiptDate)
    show thesis
    proof (cases "TrimSpace (rec ! 2) = []")
      case True
      with assms d pd show thesis by (simp add: parseTransaction_explicit)
    next
      case py: False
      show thesis
      proof (cases "parseAmount F (TrimSpace (rec ! 6))")
        case (Inl e)
        with assms d pd py show thesis by (simp add: parseTransaction_explicit)
      next
        case am: (Inr amount)
        from assms d pd py am have "p = \<lparr>Date = voucherDate, PostingDate = receiptDate, Payee = TrimSpace (rec ! 2),
          Memo = [], Amount = amount,
          Currency = (if TrimSpace (rec ! 7) \<noteq> [] then TrimSpace (rec ! 7) else ''EUR''),
          ForeignAmount =
            (if TrimSpace (rec ! 3) \<noteq> [] \<and> TrimSpace (rec ! 3) \<noteq> ''EUR'' then
               (case parseAmount F (TrimSpace (rec ! 4)) of Inr x \<Rightarrow> x | Inl err \<Rightarrow> 0)
             else 0),
          ForeignCurrency =
            (if TrimSpace (rec ! 3) \<noteq> [] \<and> TrimSpace (rec ! 3) \<noteq> ''EUR''
             then TrimSpace (rec ! 3) else []),
          ExchangeRate =
            (if TrimSpace (rec ! 3) \<noteq> [] \<and> TrimSpace (rec ! 3) \<noteq> ''EUR'' then
               (case parseExchangeRate F (TrimSpace (rec ! 5)) of
                  Inr x \<Rightarrow> if float_gt_zero x then x else 0
                | Inl err \<Rightarrow> 0)
             else 0),
          ImportID = [], SourceFile = src, SourceLine = l\<rparr>"
          by (simp add: parseTransaction_explicit Let_def)
        with d pd py am that show thesis by blast
      qed
    qed
  qed
qed

lemma parseTransaction_SourceLine:
  assumes "expectedColumnCount \<le> length rec" and "parseTransaction F rec l src = Inr p"
  shows "SourceLine p = l"
  using assms by (rule parseTransaction_Inr) simp

lemma parseTransaction_Memo:
  assumes "expectedColumnCount \<le> length rec" and "parseTransaction F rec l src = Inr p"
  shows "Memo p = []"
  using assms by (rule parseTransaction_Inr) simp

lemma associate_fee_fields:
  "SourceLine (associate_fee prev p) = SourceLine p"
  "SourceFile (associate_fee prev p) = SourceFile p"
  "Payee (associate_fee prev p) = Payee p"
  "Amount (associate_fee prev p) = Amount p"
  "Date (associate_fee prev p) = Date p"
  "PostingDate (associate_fee prev p) = PostingDate p"
  "Currency (associate_fee prev p) = Currency p"
  "ForeignAmount (associate_fee prev p) = ForeignAmount p"
  "ForeignCurrency (associate_fee prev p) = ForeignCurrency p"
  "ExchangeRate (associate_fee prev p) = ExchangeRate p"
  by (simp_all add: associate_fee_def split: option.splits)

lemma finish_fields:
  "SourceLine (finish F st p) = SourceLine p"
  "SourceFile (finish F st p) = SourceFile p"
  "Payee (finish F st p) = Payee p"
  "Amount (finish F st p) = Amount p"
  "Date (finish F st p) = Date p"
  "PostingDate (finish F st p) = PostingDate p"
  "Currency (finish F st p) = Currency p"
  "ForeignAmount (finish F st p) = ForeignAmount p"
  "ForeignCurrency (finish F st p) = ForeignCurrency p"
  "ExchangeRate (finish F st p) = ExchangeRate p"
  "Memo (finish F st p) = Memo (associate_fee (previousTransaction st) p)"
  by (simp_all add: finish_def Let_def associate_fee_fields)

text \<open>Where the transactions and the errors of a result come from.\<close>

lemma transactions_provenance:
  assumes "t \<in> set (Transactions (result (state_after F src rd n)))"
  shows "\<exists>k<n. \<exists>rec parsed. data_row rd k rec \<and> expectedColumnCount \<le> length rec \<and>
           parseTransaction F rec (Suc k) src = Inr parsed \<and>
           t = finish F (state_after F src rd k) parsed"
  using assms
proof (induction n)
  case 0
  then show ?case by (simp add: state_after_0 initial_state_def)
next
  case (Suc n)
  show ?case
  proof (cases rule: row_cases[where rd=rd and k=n and F=F and src=src])
    case eof
    with Suc.prems have "t \<in> set (Transactions (result (state_after F src rd n)))"
      by (simp add: step_EOF)
    from Suc.IH[OF this] show ?thesis using less_Suc_eq by blast
  next
    case (fault rec msg)
    with Suc.prems have "t \<in> set (Transactions (result (state_after F src rd n)))"
      by (simp add: step_fault add_error_def)
    from Suc.IH[OF this] show ?thesis using less_Suc_eq by blast
  next
    case skip
    from step_skip[OF skip, of F src] Suc.prems
    have "t \<in> set (Transactions (result (state_after F src rd n)))" by auto
    from Suc.IH[OF this] show ?thesis using less_Suc_eq by blast
  next
    case (short rec)
    with Suc.prems have "t \<in> set (Transactions (result (state_after F src rd n)))"
      by (simp add: step_short add_error_def)
    from Suc.IH[OF this] show ?thesis using less_Suc_eq by blast
  next
    case (invalid rec err)
    with Suc.prems have "t \<in> set (Transactions (result (state_after F src rd n)))"
      by (simp add: step_invalid add_error_def)
    from Suc.IH[OF this] show ?thesis using less_Suc_eq by blast
  next
    case (valid rec parsed)
    with Suc.prems have "t \<in> set (Transactions (result (state_after F src rd n))) \<or>
        t = finish F (state_after F src rd n) parsed"
      by (auto simp: step_valid)
    then show ?thesis
    proof
      assume "t \<in> set (Transactions (result (state_after F src rd n)))"
      from Suc.IH[OF this] show ?thesis using less_Suc_eq by blast
    next
      assume "t = finish F (state_after F src rd n) parsed"
      with valid show ?thesis by blast
    qed
  qed
qed

lemma errors_provenance:
  assumes "e \<in> set (Errors (result (state_after F src rd n)))"
  shows "\<exists>k<n. Line e = Suc k \<and>
           ((\<exists>rec msg. rd k = Read_err rec msg \<and> Row e = rec \<and> Error e = CsvReadError msg) \<or>
            (\<exists>rec. data_row rd k rec \<and> Row e = rec \<and>
               (if length rec < expectedColumnCount
                then Error e = ExpectedColumns expectedColumnCount (length rec)
                else parseTransaction F rec (Suc k) src = Inl (Error e))))"
    (is "\<exists>k<n. ?Q k")
  using assms
proof (induction n)
  case 0
  then show ?case by (simp add: state_after_0 initial_state_def)
next
  case (Suc n)
  let ?old = "e \<in> set (Errors (result (state_after F src rd n)))"
  have old: "\<exists>k<Suc n. ?Q k" if ?old
  proof -
    from Suc.IH[OF that] obtain k where "k < n" and "?Q k" by blast
    then have "k < Suc n" by simp
    with \<open>?Q k\<close> show ?thesis by blast
  qed
  have new: "\<exists>k<Suc n. ?Q k" if "?Q n"
    using that by blast
  show ?case
  proof (cases rule: row_cases[where rd=rd and k=n and F=F and src=src])
    case eof
    with Suc.prems have ?old by (simp add: step_EOF)
    then show ?thesis by (rule old)
  next
    case (fault rec msg)
    with Suc.prems have "?old \<or> e = \<lparr>Line = Suc n, Row = rec, Error = CsvReadError msg\<rparr>"
      by (simp add: step_fault add_error_def) blast
    then show ?thesis
    proof
      assume ?old then show ?thesis by (rule old)
    next
      assume "e = \<lparr>Line = Suc n, Row = rec, Error = CsvReadError msg\<rparr>"
      then have "Line e = Suc n" "Row e = rec" "Error e = CsvReadError msg" by simp_all
      with fault have "?Q n" by blast
      then show ?thesis by (rule new)
    qed
  next
    case skip
    from step_skip[OF skip, of F src] obtain h where
      "state_after F src rd (Suc n) = (state_after F src rd n)\<lparr>lineNumber := Suc n, headerSkipped := h\<rparr>"
      by blast
    with Suc.prems have ?old by simp
    then show ?thesis by (rule old)
  next
    case (short rec)
    with Suc.prems have "?old \<or> e = \<lparr>Line = Suc n, Row = rec,
        Error = ExpectedColumns expectedColumnCount (length rec)\<rparr>"
      by (simp add: step_short add_error_def) blast
    then show ?thesis
    proof
      assume ?old then show ?thesis by (rule old)
    next
      assume "e = \<lparr>Line = Suc n, Row = rec,
        Error = ExpectedColumns expectedColumnCount (length rec)\<rparr>"
      then have "Line e = Suc n" "Row e = rec"
        "Error e = ExpectedColumns expectedColumnCount (length rec)" by simp_all
      with short have "Line e = Suc n \<and> data_row rd n rec \<and> Row e = rec \<and>
        (if length rec < expectedColumnCount
         then Error e = ExpectedColumns expectedColumnCount (length rec)
         else parseTransaction F rec (Suc n) src = Inl (Error e))" by simp
      then have "?Q n" by blast
      then show ?thesis by (rule new)
    qed
  next
    case (invalid rec err)
    with Suc.prems have "?old \<or> e = \<lparr>Line = Suc n, Row = rec, Error = err\<rparr>"
      by (simp add: step_invalid add_error_def) blast
    then show ?thesis
    proof
      assume ?old then show ?thesis by (rule old)
    next
      assume "e = \<lparr>Line = Suc n, Row = rec, Error = err\<rparr>"
      then have "Line e = Suc n" "Row e = rec" "Error e = err" by simp_all
      with invalid have "Line e = Suc n \<and> data_row rd n rec \<and> Row e = rec \<and>
        (if length rec < expectedColumnCount
         then Error e = ExpectedColumns expectedColumnCount (length rec)
         else parseTransaction F rec (Suc n) src = Inl (Error e))" by simp
      then have "?Q n" by blast
      then show ?thesis by (rule new)
    qed
  next
    case (valid rec parsed)
    with Suc.prems have ?old by (simp add: step_valid)
    then show ?thesis by (rule old)
  qed
qed

section \<open>The balance row\<close>

lemma Parse_Inr_state_after:
  assumes "Parse F ctx rd src = Some (Inr res)"
  obtains n where "\<forall>j<n. \<not> or_Background ctx j \<and> rd j \<noteq> Read_EOF"
      and "\<not> or_Background ctx n" and "rd n = Read_EOF"
      and "res = result (state_after F src rd n)"
  using assms by (rule Parse_Inr) (simp add: state_after_def)

lemma balance_skipped: "rd k = Read_ok rec \<Longrightarrow> is_balance rec \<Longrightarrow> skipped rd k"
  by (simp add: skipped_def)

lemma no_output_for_skipped_row:
  assumes "skipped rd k"
  shows "(\<forall>t\<in>set (Transactions (result (state_after F src rd n))). SourceLine t \<noteq> Suc k) \<and>
         (\<forall>e\<in>set (Errors (result (state_after F src rd n))). Line e \<noteq> Suc k)"
proof (intro conjI ballI)
  fix t assume "t \<in> set (Transactions (result (state_after F src rd n)))"
  from transactions_provenance[OF this] obtain k' rec parsed where
    dr: "data_row rd k' rec" and len: "expectedColumnCount \<le> length rec"
    and p: "parseTransaction F rec (Suc k') src = Inr parsed"
    and t: "t = finish F (state_after F src rd k') parsed"
    by blast
  from t have "SourceLine t = SourceLine parsed" by (simp add: finish_fields)
  also from len p have "\<dots> = Suc k'" by (rule parseTransaction_SourceLine)
  finally have "SourceLine t = Suc k'" .
  moreover from dr assms have "k' \<noteq> k" by (auto simp: data_row_def)
  ultimately show "SourceLine t \<noteq> Suc k" by simp
next
  fix e assume "e \<in> set (Errors (result (state_after F src rd n)))"
  from errors_provenance[OF this] obtain k' where
    l: "Line e = Suc k'" and
    c: "(\<exists>rec msg. rd k' = Read_err rec msg) \<or> (\<exists>rec. data_row rd k' rec)"
    by blast
  from assms obtain rec where "rd k = Read_ok rec" by (auto dest: skipped_Read_ok)
  with c assms have "k' \<noteq> k" by (auto simp: data_row_def)
  with l show "Line e \<noteq> Suc k" by simp
qed

text \<open>
  C8. A record whose first field, trimmed, starts with \<open>Balance:\<close> is skipped silently.
  The iteration that reads it leaves the whole result (the transactions, the errors and
  both row counters), the occurrence map and the previous transaction as they were; and
  in what a call of \<open>Parse\<close> returns, no transaction and no error has the line number of
  such a record.
\<close>

theorem balance_row_skipped_silently:
  assumes "is_balance rec"
  shows "result (iteration F src (Read_ok rec) st) = result st \<and>
         occurrenceMap (iteration F src (Read_ok rec) st) = occurrenceMap st \<and>
         previousTransaction (iteration F src (Read_ok rec) st) = previousTransaction st \<and>
         (\<forall>ctx rd res k. Parse F ctx rd src = Some (Inr res) \<longrightarrow> rd k = Read_ok rec \<longrightarrow>
            (\<forall>t\<in>set (Transactions res). SourceLine t \<noteq> Suc k) \<and>
            (\<forall>e\<in>set (Errors res). Line e \<noteq> Suc k))"
proof -
  from assms have "skips st rec" by (simp add: skips_def)
  from iteration_skip[OF this, of F src] obtain h where
    "iteration F src (Read_ok rec) st = st\<lparr>lineNumber := lineNumber st + 1, headerSkipped := h\<rparr>"
    by blast
  then have step: "result (iteration F src (Read_ok rec) st) = result st"
    "occurrenceMap (iteration F src (Read_ok rec) st) = occurrenceMap st"
    "previousTransaction (iteration F src (Read_ok rec) st) = previousTransaction st"
    by simp_all
  have call: "(\<forall>t\<in>set (Transactions res). SourceLine t \<noteq> Suc k) \<and>
              (\<forall>e\<in>set (Errors res). Line e \<noteq> Suc k)"
    if "Parse F ctx rd src = Some (Inr res)" and "rd k = Read_ok rec" for ctx rd res k
  proof -
    from that(1) obtain n where "res = result (state_after F src rd n)"
      by (rule Parse_Inr_state_after)
    moreover from that(2) assms have "skipped rd k" by (rule balance_skipped)
    ultimately show ?thesis using no_output_for_skipped_row[of rd k F src n] by simp
  qed
  from step call show ?thesis by blast
qed

theorem balance_row_skipped_silently_witness:
  "is_balance row_balance \<and>
   result (iteration sample_floats ''statement.csv'' (Read_ok row_balance) initial_state)
     = result initial_state \<and>
   Parse sample_floats None (reader_of sample_statement) ''statement.csv''
     = Some (Inr (sample_result ''statement.csv'')) \<and>
   reader_of sample_statement 14 = Read_ok row_balance \<and>
   15 \<notin> SourceLine ` set (Transactions (sample_result ''statement.csv'')) \<and>
   15 \<notin> Line ` set (Errors (sample_result ''statement.csv''))"
proof -
  have r: "reader_of sample_statement 14 = Read_ok row_balance"
    by (simp add: reader_of_def sample_statement_def preamble_def)
  from balance_row_skipped_silently[OF row_balance_class, of sample_floats "''statement.csv''"
      initial_state]
  have "result (iteration sample_floats ''statement.csv'' (Read_ok row_balance) initial_state)
          = result initial_state"
    and "\<And>ctx rd res k. Parse sample_floats ctx rd ''statement.csv'' = Some (Inr res) \<Longrightarrow>
          rd k = Read_ok row_balance \<Longrightarrow>
          (\<forall>t\<in>set (Transactions res). SourceLine t \<noteq> Suc k) \<and>
          (\<forall>e\<in>set (Errors res). Line e \<noteq> Suc k)"
    by blast+
  from this(1) this(2)[OF sample_Parse r] row_balance_class sample_Parse r
  show ?thesis by auto
qed

section \<open>Counting the rows\<close>

lemma parseTransaction_Inl:
  assumes "expectedColumnCount \<le> length rec" and "parseTransaction F rec l src = Inl err"
  shows "(\<exists>e. err = InvalidVoucherDate e) \<or> (\<exists>e. err = InvalidReceiptDate e) \<or>
         err = PayeeRequired \<or> (\<exists>e. err = InvalidAmount e)"
proof (cases "parseDate (TrimSpace (rec ! 0))")
  case (Inl e)
  with assms show ?thesis by (auto simp: parseTransaction_explicit)
next
  case d: (Inr voucherDate)
  show ?thesis
  proof (cases "parseDate (TrimSpace (rec ! 1))")
    case (Inl e)
    with assms d show ?thesis by (auto simp: parseTransaction_explicit)
  next
    case pd: (Inr receiptDate)
    show ?thesis
    proof (cases "TrimSpace (rec ! 2) = []")
      case True
      with assms d pd show ?thesis by (auto simp: parseTransaction_explicit)
    next
      case py: False
      show ?thesis
      proof (cases "parseAmount F (TrimSpace (rec ! 6))")
        case (Inl e)
        with assms d pd py show ?thesis by (auto simp: parseTransaction_explicit)
      next
        case (Inr amount)
        with assms d pd py show ?thesis by (auto simp: parseTransaction_explicit Let_def)
      qed
    qed
  qed
qed

lemma parseTransaction_no_read_fault:
  assumes "expectedColumnCount \<le> length rec" and "parseTransaction F rec l src = Inl err"
  shows "\<not> is_read_fault \<lparr>Line = n, Row = r, Error = err\<rparr>"
  using parseTransaction_Inl[OF assms] by (auto simp: is_read_fault_def)

lemma skipped_Suc:
  "filter (skipped rd) [0..<Suc n] =
     filter (skipped rd) [0..<n] @ (if skipped rd n then [n] else [])"
  by simp

lemma not_skipped_fault: "rd n = Read_err rec msg \<Longrightarrow> \<not> skipped rd n"
  by (simp add: skipped_def)

lemma not_skipped_data_row: "data_row rd n rec \<Longrightarrow> \<not> skipped rd n"
  by (simp add: data_row_def)

lemma counters_state_after:
  "SuccessfulRows (result (state_after F src rd n)) =
     length (Transactions (result (state_after F src rd n))) \<and>
   TotalRows (result (state_after F src rd n)) =
     length (Transactions (result (state_after F src rd n))) +
     length (filter (\<lambda>e. \<not> is_read_fault e) (Errors (result (state_after F src rd n))))"
proof (induction n)
  case 0
  show ?case by (simp add: state_after_0 initial_state_def)
next
  case (Suc n)
  show ?case
  proof (cases rule: row_cases[where rd=rd and k=n and F=F and src=src])
    case eof
    with Suc show ?thesis by (simp add: step_EOF)
  next
    case (fault rec msg)
    with Suc show ?thesis by (simp add: step_fault add_error_def is_read_fault_def)
  next
    case skip
    from step_skip[OF skip, of F src] obtain h where
      "state_after F src rd (Suc n) =
         (state_after F src rd n)\<lparr>lineNumber := Suc n, headerSkipped := h\<rparr>"
      by blast
    with Suc show ?thesis by simp
  next
    case (short rec)
    with Suc show ?thesis by (simp add: step_short add_error_def is_read_fault_def)
  next
    case (invalid rec err)
    with Suc show ?thesis
      by (simp add: step_invalid add_error_def parseTransaction_no_read_fault)
  next
    case (valid rec parsed)
    with Suc show ?thesis by (simp add: step_valid)
  qed
qed

lemma every_row_classified:
  assumes "\<forall>j<n. rd j \<noteq> Read_EOF"
  shows "n = length (Transactions (result (state_after F src rd n))) +
             length (Errors (result (state_after F src rd n))) +
             length (filter (skipped rd) [0..<n])"
  using assms
proof (induction n)
  case 0
  show ?case by (simp add: state_after_0 initial_state_def)
next
  case (Suc n)
  then have IH: "n = length (Transactions (result (state_after F src rd n))) +
             length (Errors (result (state_after F src rd n))) +
             length (filter (skipped rd) [0..<n])"
    and ne: "rd n \<noteq> Read_EOF"
    by simp_all
  show ?case
  proof (cases rule: row_cases[where rd=rd and k=n and F=F and src=src])
    case eof
    with ne show ?thesis by simp
  next
    case (fault rec msg)
    then have "\<not> skipped rd n" by (rule not_skipped_fault)
    with fault IH show ?thesis by (simp add: step_fault add_error_def)
  next
    case skip
    from step_skip[OF skip, of F src] obtain h where
      "state_after F src rd (Suc n) =
         (state_after F src rd n)\<lparr>lineNumber := Suc n, headerSkipped := h\<rparr>"
      by blast
    with skip IH show ?thesis by simp
  next
    case (short rec)
    then have "\<not> skipped rd n" by (simp add: not_skipped_data_row)
    with short IH show ?thesis by (simp add: step_short add_error_def)
  next
    case (invalid rec err)
    then have "\<not> skipped rd n" by (simp add: not_skipped_data_row)
    with invalid IH show ?thesis by (simp add: step_invalid add_error_def)
  next
    case (valid rec parsed)
    then have "\<not> skipped rd n" by (simp add: not_skipped_data_row)
    with valid IH show ?thesis by (simp add: step_valid)
  qed
qed

text \<open>
  C7. The leniency invariant. In what \<open>Parse\<close> returns, \<open>SuccessfulRows\<close> is the number
  of transactions, and \<open>TotalRows\<close> is that number plus the number of errors recorded
  for rows that reached validation, that is, of the errors that are no read fault of the
  reader. And no record is dropped unclassified: the number of records read before
  \<open>io.EOF\<close> is the number of transactions, plus the number of errors, plus the number of
  records skipped as metadata, column header, blank row or balance row.
\<close>

theorem leniency_invariant:
  assumes "Parse F ctx rd src = Some (Inr res)"
  shows "SuccessfulRows res = length (Transactions res) \<and>
         TotalRows res =
           length (Transactions res) + length (filter (\<lambda>e. \<not> is_read_fault e) (Errors res)) \<and>
         (\<exists>n. rd n = Read_EOF \<and> (\<forall>j<n. rd j \<noteq> Read_EOF) \<and>
              n = length (Transactions res) + length (Errors res) +
                  length (filter (skipped rd) [0..<n]))"
proof -
  from assms obtain n where pre: "\<forall>j<n. \<not> or_Background ctx j \<and> rd j \<noteq> Read_EOF"
    and eof: "rd n = Read_EOF" and res: "res = result (state_after F src rd n)"
    by (rule Parse_Inr_state_after)
  from pre have ne: "\<forall>j<n. rd j \<noteq> Read_EOF" by simp
  from every_row_classified[OF ne, of F src] res
  have "n = length (Transactions res) + length (Errors res) +
            length (filter (skipped rd) [0..<n])"
    by simp
  with eof ne have "\<exists>n. rd n = Read_EOF \<and> (\<forall>j<n. rd j \<noteq> Read_EOF) \<and>
      n = length (Transactions res) + length (Errors res) +
          length (filter (skipped rd) [0..<n])"
    by blast
  with counters_state_after[of F src rd n] res show ?thesis by simp
qed

section \<open>Every fault of a row is collected\<close>

lemma sample_reader_end:
  assumes "reader_of sample_statement n = Read_EOF"
    and "\<forall>j<n. reader_of sample_statement j \<noteq> Read_EOF"
  shows "n = 15"
proof -
  have len: "length sample_statement = 15" by (simp add: sample_statement_def preamble_def)
  have "Read_EOF \<notin> set sample_statement" by (simp add: sample_statement_def preamble_def)
  then have "reader_of sample_statement j \<noteq> Read_EOF" if "j < 15" for j
    using that len by (metis nth_mem reader_of_def)
  with assms(1) have "\<not> n < 15" by blast
  moreover have "reader_of sample_statement 15 = Read_EOF" by (simp add: reader_of_def len)
  with assms(2) have "\<not> 15 < n" by blast
  ultimately show ?thesis by simp
qed

theorem leniency_invariant_witness:
  "Parse sample_floats None (reader_of sample_statement) ''statement.csv''
     = Some (Inr (sample_result ''statement.csv'')) \<and>
   length (Transactions (sample_result ''statement.csv'')) = 5 \<and>
   length (Errors (sample_result ''statement.csv'')) = 3 \<and>
   SuccessfulRows (sample_result ''statement.csv'') = 5 \<and>
   TotalRows (sample_result ''statement.csv'') = 7 \<and>
   length (filter (\<lambda>e. \<not> is_read_fault e) (Errors (sample_result ''statement.csv''))) = 2 \<and>
   length (filter (skipped (reader_of sample_statement)) [0..<15]) = 7"
proof -
  have lt: "length (Transactions (sample_result ''statement.csv'')) = 5"
    and le: "length (Errors (sample_result ''statement.csv'')) = 3"
    by (simp_all add: sample_result_def)
  note inv = leniency_invariant[OF sample_Parse[of "''statement.csv''"]]
  from inv obtain n where "reader_of sample_statement n = Read_EOF"
    and "\<forall>j<n. reader_of sample_statement j \<noteq> Read_EOF"
    and n: "n = length (Transactions (sample_result ''statement.csv'')) +
                length (Errors (sample_result ''statement.csv'')) +
                length (filter (skipped (reader_of sample_statement)) [0..<n])"
    by blast
  then have "n = 15" using sample_reader_end by blast
  with n lt le have "length (filter (skipped (reader_of sample_statement)) [0..<15]) = 7"
    by simp
  moreover from inv lt have "SuccessfulRows (sample_result ''statement.csv'') = 5" by simp
  moreover have "TotalRows (sample_result ''statement.csv'') = 7" by (simp add: sample_result_def)
  with inv lt
  have "length (filter (\<lambda>e. \<not> is_read_fault e) (Errors (sample_result ''statement.csv''))) = 2"
    by simp
  ultimately show ?thesis using sample_Parse lt le by (simp add: sample_result_def)
qed

lemma errors_step:
  "set (Errors (result (state_after F src rd n))) \<subseteq>
   set (Errors (result (state_after F src rd (Suc n))))"
proof (cases rule: row_cases[where rd=rd and k=n and F=F and src=src])
  case eof
  then show ?thesis by (simp add: step_EOF)
next
  case (fault rec msg)
  then show ?thesis by (auto simp: step_fault add_error_def)
next
  case skip
  from step_skip[OF skip, of F src] show ?thesis by auto
next
  case (short rec)
  then show ?thesis by (auto simp: step_short add_error_def)
next
  case (invalid rec err)
  then show ?thesis by (auto simp: step_invalid add_error_def)
next
  case (valid rec parsed)
  then show ?thesis by (simp add: step_valid)
qed

lemma errors_mono:
  "k \<le> n \<Longrightarrow> set (Errors (result (state_after F src rd k))) \<subseteq>
     set (Errors (result (state_after F src rd n)))"
  by (rule lift_Suc_mono_le[where f="\<lambda>n. set (Errors (result (state_after F src rd n)))"])
     (rule errors_step)

lemma transactions_step:
  "set (Transactions (result (state_after F src rd n))) \<subseteq>
   set (Transactions (result (state_after F src rd (Suc n))))"
proof (cases rule: row_cases[where rd=rd and k=n and F=F and src=src])
  case eof
  then show ?thesis by (simp add: step_EOF)
next
  case (fault rec msg)
  then show ?thesis by (simp add: step_fault add_error_def)
next
  case skip
  from step_skip[OF skip, of F src] show ?thesis by auto
next
  case (short rec)
  then show ?thesis by (simp add: step_short add_error_def)
next
  case (invalid rec err)
  then show ?thesis by (simp add: step_invalid add_error_def)
next
  case (valid rec parsed)
  then show ?thesis by (auto simp: step_valid)
qed

lemma transactions_mono:
  "k \<le> n \<Longrightarrow> set (Transactions (result (state_after F src rd k))) \<subseteq>
     set (Transactions (result (state_after F src rd n)))"
  by (rule lift_Suc_mono_le[where f="\<lambda>n. set (Transactions (result (state_after F src rd n)))"])
     (rule transactions_step)

lemma fault_collected:
  assumes "k < n" and "rd k = Read_err rec msg"
  shows "\<lparr>Line = Suc k, Row = rec, Error = CsvReadError msg\<rparr>
           \<in> set (Errors (result (state_after F src rd n)))"
proof -
  from assms(2) have "\<lparr>Line = Suc k, Row = rec, Error = CsvReadError msg\<rparr>
      \<in> set (Errors (result (state_after F src rd (Suc k))))"
    by (simp add: step_fault add_error_def)
  moreover from assms(1) have "Suc k \<le> n" by simp
  ultimately show ?thesis using errors_mono by blast
qed

lemma short_row_collected:
  assumes "k < n" and "data_row rd k rec" and "length rec < expectedColumnCount"
  shows "\<lparr>Line = Suc k, Row = rec, Error = ExpectedColumns expectedColumnCount (length rec)\<rparr>
           \<in> set (Errors (result (state_after F src rd n)))"
proof -
  from assms(2,3)
  have "\<lparr>Line = Suc k, Row = rec, Error = ExpectedColumns expectedColumnCount (length rec)\<rparr>
      \<in> set (Errors (result (state_after F src rd (Suc k))))"
    by (simp add: step_short add_error_def)
  moreover from assms(1) have "Suc k \<le> n" by simp
  ultimately show ?thesis using errors_mono by blast
qed

lemma invalid_row_collected:
  assumes "k < n" and "data_row rd k rec" and "expectedColumnCount \<le> length rec"
    and "parseTransaction F rec (Suc k) src = Inl err"
  shows "\<lparr>Line = Suc k, Row = rec, Error = err\<rparr>
           \<in> set (Errors (result (state_after F src rd n)))"
proof -
  from assms(2,3,4)
  have "\<lparr>Line = Suc k, Row = rec, Error = err\<rparr>
      \<in> set (Errors (result (state_after F src rd (Suc k))))"
    by (simp add: step_invalid add_error_def)
  moreover from assms(1) have "Suc k \<le> n" by simp
  ultimately show ?thesis using errors_mono by blast
qed

lemma valid_row_emitted:
  assumes "k < n" and "data_row rd k rec" and "expectedColumnCount \<le> length rec"
    and "parseTransaction F rec (Suc k) src = Inr parsed"
  shows "finish F (state_after F src rd k) parsed
           \<in> set (Transactions (result (state_after F src rd n)))"
proof -
  from assms(2,3,4)
  have "finish F (state_after F src rd k) parsed
      \<in> set (Transactions (result (state_after F src rd (Suc k))))"
    by (simp add: step_valid)
  moreover from assms(1) have "Suc k \<le> n" by simp
  ultimately show ?thesis using transactions_mono by blast
qed

lemma Parse_never_returns:
  assumes "\<forall>k. \<not> or_Background ctx k \<and> rd k \<noteq> Read_EOF"
  shows "Parse F ctx rd src = None"
proof (cases "Parse F ctx rd src")
  case None
  then show ?thesis .
next
  case (Some y)
  from Some show ?thesis
  proof (rule Parse_Some_cases)
    fix n assume "or_Background ctx n"
    with assms show ?thesis by simp
  next
    fix n assume "rd n = Read_EOF"
    with assms show ?thesis by simp
  qed
qed

section \<open>The records of the sample statement\<close>

lemma sample_reader_at:
  "reader_of sample_statement 6 = Read_err [] ''bare quote''"
  "reader_of sample_statement 7 = Read_ok row_short"
  "reader_of sample_statement 8 = Read_ok row_bad_date"
  "reader_of sample_statement 15 = Read_EOF"
  by (simp_all add: reader_of_def sample_statement_def preamble_def)

lemma sample_past_header: "5 \<le> k \<Longrightarrow> past_header (reader_of sample_statement) k"
proof -
  assume "5 \<le> k"
  moreover have "is_Read_ok (reader_of sample_statement 4)"
    by (simp add: reader_of_def sample_statement_def preamble_def is_Read_ok_def)
  ultimately have "4 < k \<and> (4::nat) \<le> 4 \<and> is_Read_ok (reader_of sample_statement 4)" by simp
  then show ?thesis unfolding past_header_iff by (rule exI[of _ 4])
qed

lemma sample_data_rows:
  "data_row (reader_of sample_statement) 7 row_short"
  "data_row (reader_of sample_statement) 8 row_bad_date"
  by (simp_all add: data_row_def skipped_def sample_reader_at is_column_header_def
      sample_past_header row_short_class row_bad_date_class)

section \<open>The foreign-currency fields and the exchange rate\<close>

lemma usd_Parse:
  "Parse sample_floats None (reader_of usd_statement) ''statement.csv'' = Some (Inr usd_result)"
proof -
  have "Read_EOF \<notin> set usd_statement" by (simp add: usd_statement_def preamble_def)
  moreover have "result (run sample_floats ''statement.csv'' usd_statement initial_state)
      = usd_result"
    by (simp add: usd_statement_def usd_result_def run_append run_preamble eval_iteration
        eval_rows eval_id eval_fee)
  ultimately show ?thesis by (simp add: Parse_reader_of)
qed

lemma bad_rate_Parse:
  "Parse sample_floats None (reader_of bad_rate_statement) ''statement.csv''
     = Some (Inr bad_rate_result)"
proof -
  have "Read_EOF \<notin> set bad_rate_statement" by (simp add: bad_rate_statement_def preamble_def)
  moreover have "result (run sample_floats ''statement.csv'' bad_rate_statement initial_state)
      = bad_rate_result"
    by (simp add: bad_rate_statement_def bad_rate_result_def run_append run_preamble
        eval_iteration eval_rows eval_id eval_fee)
  ultimately show ?thesis by (simp add: Parse_reader_of)
qed

text \<open>
  C5, as stated, fails. The row \<open>row_usd\<close> has the same currency, USD, in its
  foreign-currency column and in its settlement-currency column, and its transaction
  has the foreign currency and the foreign amount set all the same.
\<close>

theorem foreign_fields_counterexample:
  "Parse sample_floats None (reader_of usd_statement) ''statement.csv'' = Some (Inr usd_result) \<and>
   reader_of usd_statement 5 = Read_ok row_usd \<and>
   row_usd ! colForeignCurrency = row_usd ! colCurrency \<and>
   map SourceLine (Transactions usd_result) = [6] \<and>
   map ForeignCurrency (Transactions usd_result) = [''USD''] \<and>
   map ForeignAmount (Transactions usd_result) = [0xC029000000000000]"
  by (simp add: usd_Parse)
     (simp add: usd_result_def reader_of_def usd_statement_def preamble_def row_usd_def
       colForeignCurrency_def colCurrency_def)

text \<open>
  C4, as stated, fails. The row \<open>row_foreign\<close> has the exchange-rate field \<open>abc\<close>,
  which is not empty and which \<open>strconv.ParseFloat\<close> refuses; the row is emitted as a
  transaction with exchange rate 0, and the error list stays empty.
\<close>

theorem exchange_rate_counterexample:
  "reader_of bad_rate_statement 5 = Read_ok row_foreign \<and>
   row_foreign ! colExchangeRate = ''abc'' \<and>
   parseExchangeRate sample_floats ''abc'' = Inl InvalidExchangeRate \<and>
   Parse sample_floats None (reader_of bad_rate_statement) ''statement.csv''
     = Some (Inr bad_rate_result) \<and>
   Errors bad_rate_result = [] \<and>
   map SourceLine (Transactions bad_rate_result) = [6] \<and>
   map ExchangeRate (Transactions bad_rate_result) = [0]"
  by (simp add: bad_rate_Parse)
     (simp add: bad_rate_result_def reader_of_def bad_rate_statement_def preamble_def
       row_foreign_def colExchangeRate_def parseExchangeRate_def sample_ParseFloat eval_trim)

lemma parseDate_errors: "parseDate s = Inl e \<Longrightarrow> e = DateEmpty \<or> e = InvalidDateFormat"
  by (auto simp: parseDate_def split: if_splits option.splits)

lemma parseAmount_errors:
  "parseAmount F s = Inl e \<Longrightarrow> e = AmountEmpty \<or> e = InvalidNumberFormat"
  by (auto simp: parseAmount_def split: if_splits option.splits)

lemma parseTransaction_isl:
  assumes "expectedColumnCount \<le> length rec"
  shows "isl (parseTransaction F rec l src) =
    (isl (parseDate (TrimSpace (rec ! colVoucherDate))) \<or>
     isl (parseDate (TrimSpace (rec ! colReceiptDate))) \<or>
     TrimSpace (rec ! colPayee) = [] \<or>
     isl (parseAmount F (TrimSpace (rec ! colAmount))))"
proof (cases "parseDate (TrimSpace (rec ! 0))")
  case (Inl e)
  with assms show ?thesis by (simp add: parseTransaction_explicit colVoucherDate_def)
next
  case d: (Inr voucherDate)
  show ?thesis
  proof (cases "parseDate (TrimSpace (rec ! 1))")
    case (Inl e)
    with assms d show ?thesis
      by (simp add: parseTransaction_explicit colVoucherDate_def colReceiptDate_def)
  next
    case pd: (Inr receiptDate)
    show ?thesis
    proof (cases "TrimSpace (rec ! 2) = []")
      case True
      with assms d pd show ?thesis
        by (simp add: parseTransaction_explicit colVoucherDate_def colReceiptDate_def colPayee_def)
    next
      case py: False
      show ?thesis
      proof (cases "parseAmount F (TrimSpace (rec ! 6))")
        case (Inl e)
        with assms d pd py show ?thesis
          by (simp add: parseTransaction_explicit colVoucherDate_def colReceiptDate_def
              colPayee_def colAmount_def)
      next
        case (Inr amount)
        with assms d pd py show ?thesis
          by (simp add: parseTransaction_explicit colVoucherDate_def colReceiptDate_def
              colPayee_def colAmount_def Let_def)
      qed
    qed
  qed
qed

lemma parseTransaction_root_cause:
  assumes "expectedColumnCount \<le> length rec" and "parseTransaction F rec l src = Inl err"
  shows "root_cause err \<in> {DateEmpty, InvalidDateFormat, PayeeRequired, AmountEmpty,
           InvalidNumberFormat}"
proof (cases "parseDate (TrimSpace (rec ! 0))")
  case (Inl e)
  with assms parseDate_errors[OF Inl] show ?thesis by (auto simp: parseTransaction_explicit)
next
  case d: (Inr voucherDate)
  show ?thesis
  proof (cases "parseDate (TrimSpace (rec ! 1))")
    case (Inl e)
    with assms d parseDate_errors[OF Inl] show ?thesis
      by (auto simp: parseTransaction_explicit)
  next
    case pd: (Inr receiptDate)
    show ?thesis
    proof (cases "TrimSpace (rec ! 2) = []")
      case True
      with assms d pd show ?thesis by (auto simp: parseTransaction_explicit)
    next
      case py: False
      show ?thesis
      proof (cases "parseAmount F (TrimSpace (rec ! 6))")
        case (Inl e)
        with assms d pd py parseAmount_errors[OF Inl] show ?thesis
          by (auto simp: parseTransaction_explicit)
      next
        case (Inr amount)
        with assms d pd py show ?thesis by (simp add: parseTransaction_explicit Let_def)
      qed
    qed
  qed
qed

lemma no_exchange_rate_error:
  assumes "e \<in> set (Errors (result (state_after F src rd n)))"
  shows "root_cause (Error e) \<noteq> InvalidExchangeRate"
proof -
  from errors_provenance[OF assms] obtain k where
    c: "(\<exists>rec msg. rd k = Read_err rec msg \<and> Row e = rec \<and> Error e = CsvReadError msg) \<or>
        (\<exists>rec. data_row rd k rec \<and> Row e = rec \<and>
           (if length rec < expectedColumnCount
            then Error e = ExpectedColumns expectedColumnCount (length rec)
            else parseTransaction F rec (Suc k) src = Inl (Error e)))"
    by blast
  then show ?thesis
  proof
    assume "\<exists>rec msg. rd k = Read_err rec msg \<and> Row e = rec \<and> Error e = CsvReadError msg"
    then show ?thesis by auto
  next
    assume "\<exists>rec. data_row rd k rec \<and> Row e = rec \<and>
           (if length rec < expectedColumnCount
            then Error e = ExpectedColumns expectedColumnCount (length rec)
            else parseTransaction F rec (Suc k) src = Inl (Error e))"
    then obtain rec where r: "if length rec < expectedColumnCount
            then Error e = ExpectedColumns expectedColumnCount (length rec)
            else parseTransaction F rec (Suc k) src = Inl (Error e)"
      by blast
    show ?thesis
    proof (cases "length rec < expectedColumnCount")
      case True
      with r show ?thesis by simp
    next
      case False
      with r have "expectedColumnCount \<le> length rec"
        and "parseTransaction F rec (Suc k) src = Inl (Error e)"
        by simp_all
      from parseTransaction_root_cause[OF this] show ?thesis by auto
    qed
  qed
qed

text \<open>
  C4, amended. An empty exchange-rate field parses to 0 without error, and
  \<open>parseExchangeRate\<close> returns an error for a field that is not empty and that
  \<open>strconv.ParseFloat\<close> refuses. But \<open>parseTransaction\<close> drops that error: a record of
  eight fields or more is refused exactly when a date, the payee or the amount is
  invalid, whatever its exchange-rate field holds; a record it accepts whose
  exchange-rate field does not parse has the exchange rate 0; and no entry of the error
  list of a result is an exchange-rate error.
\<close>

theorem exchange_rate_fault_is_dropped:
  "parseExchangeRate F [] = Inr 0 \<and>
   (rateStr \<noteq> [] \<longrightarrow> ParseFloat F (TrimSpace rateStr) = None \<longrightarrow>
      parseExchangeRate F rateStr = Inl InvalidExchangeRate) \<and>
   (expectedColumnCount \<le> length rec \<longrightarrow>
      isl (parseTransaction F rec l src) =
        (isl (parseDate (TrimSpace (rec ! colVoucherDate))) \<or>
         isl (parseDate (TrimSpace (rec ! colReceiptDate))) \<or>
         TrimSpace (rec ! colPayee) = [] \<or>
         isl (parseAmount F (TrimSpace (rec ! colAmount))))) \<and>
   (\<forall>p. expectedColumnCount \<le> length rec \<longrightarrow> parseTransaction F rec l src = Inr p \<longrightarrow>
      isl (parseExchangeRate F (TrimSpace (rec ! colExchangeRate))) \<longrightarrow> ExchangeRate p = 0) \<and>
   (\<forall>ctx rd res. Parse F ctx rd src = Some (Inr res) \<longrightarrow>
      (\<forall>e\<in>set (Errors res). root_cause (Error e) \<noteq> InvalidExchangeRate))"
proof -
  have A: "parseExchangeRate F [] = Inr 0" by (simp add: parseExchangeRate_def)
  have B: "rateStr \<noteq> [] \<longrightarrow> ParseFloat F (TrimSpace rateStr) = None \<longrightarrow>
      parseExchangeRate F rateStr = Inl InvalidExchangeRate"
    by (simp add: parseExchangeRate_def)
  have C: "expectedColumnCount \<le> length rec \<longrightarrow>
      isl (parseTransaction F rec l src) =
        (isl (parseDate (TrimSpace (rec ! colVoucherDate))) \<or>
         isl (parseDate (TrimSpace (rec ! colReceiptDate))) \<or>
         TrimSpace (rec ! colPayee) = [] \<or>
         isl (parseAmount F (TrimSpace (rec ! colAmount))))"
    using parseTransaction_isl by blast
  have D: "\<forall>p. expectedColumnCount \<le> length rec \<longrightarrow> parseTransaction F rec l src = Inr p \<longrightarrow>
      isl (parseExchangeRate F (TrimSpace (rec ! colExchangeRate))) \<longrightarrow> ExchangeRate p = 0"
  proof (intro allI impI)
    fix p
    assume len: "expectedColumnCount \<le> length rec" and p: "parseTransaction F rec l src = Inr p"
      and bad: "isl (parseExchangeRate F (TrimSpace (rec ! colExchangeRate)))"
    from bad obtain e where "parseExchangeRate F (TrimSpace (rec ! 5)) = Inl e"
      by (cases "parseExchangeRate F (TrimSpace (rec ! 5))") (simp_all add: colExchangeRate_def)
    then show "ExchangeRate p = 0"
      by - (rule parseTransaction_Inr[OF len p], simp)
  qed
  have E: "\<forall>ctx rd res. Parse F ctx rd src = Some (Inr res) \<longrightarrow>
      (\<forall>e\<in>set (Errors res). root_cause (Error e) \<noteq> InvalidExchangeRate)"
  proof (intro allI impI ballI)
    fix ctx rd res e
    assume "Parse F ctx rd src = Some (Inr res)" and e: "e \<in> set (Errors res)"
    from this(1) obtain n where "res = result (state_after F src rd n)"
      by (rule Parse_Inr_state_after)
    with e show "root_cause (Error e) \<noteq> InvalidExchangeRate"
      by (simp add: no_exchange_rate_error)
  qed
  show ?thesis by (rule conjI[OF A conjI[OF B conjI[OF C conjI[OF D E]]]])
qed

theorem exchange_rate_fault_is_dropped_witness:
  "''abc'' \<noteq> [] \<and> ParseFloat sample_floats (TrimSpace ''abc'') = None \<and>
   parseExchangeRate sample_floats ''abc'' = Inl InvalidExchangeRate \<and>
   expectedColumnCount \<le> length row_foreign \<and>
   \<not> isl (parseTransaction sample_floats row_foreign 6 ''statement.csv'') \<and>
   isl (parseExchangeRate sample_floats (TrimSpace (row_foreign ! colExchangeRate))) \<and>
   map_sum id ExchangeRate (parseTransaction sample_floats row_foreign 6 ''statement.csv'') = Inr 0 \<and>
   Parse sample_floats None (reader_of sample_statement) ''statement.csv''
     = Some (Inr (sample_result ''statement.csv'')) \<and>
   InvalidExchangeRate \<notin> (root_cause \<circ> Error) ` set (Errors (sample_result ''statement.csv''))"
proof -
  note inst = exchange_rate_fault_is_dropped[of sample_floats "''abc''" row_foreign 6
      "''statement.csv''"]
  have abc: "''abc'' \<noteq> []" "ParseFloat sample_floats (TrimSpace ''abc'') = None"
    by (simp_all add: sample_ParseFloat eval_trim)
  have len: "expectedColumnCount \<le> length row_foreign"
    by (simp add: expectedColumnCount_def row_foreign_class)
  have bad: "isl (parseExchangeRate sample_floats (TrimSpace (row_foreign ! colExchangeRate)))"
    by (simp add: row_foreign_def colExchangeRate_def parseExchangeRate_def sample_ParseFloat
        eval_trim)
  note B = mp[OF mp[OF conjunct1[OF conjunct2[OF inst]] abc(1)] abc(2)]
  note D = mp[OF mp[OF mp[OF spec[OF conjunct1[OF conjunct2[OF conjunct2[OF conjunct2[OF inst]]]]]
      len] parse_row_foreign] bad]
  note E = mp[OF spec[OF spec[OF spec[OF conjunct2[OF conjunct2[OF conjunct2[OF conjunct2[OF inst]]]]]]]
      sample_Parse[of "''statement.csv''"]]
  from E have "InvalidExchangeRate
      \<notin> (root_cause \<circ> Error) ` set (Errors (sample_result ''statement.csv''))"
    by auto
  with abc B len bad D sample_Parse[of "''statement.csv''"] show ?thesis
    by (simp add: parse_row_foreign)
qed

text \<open>
  C5, amended. Every transaction of a result comes from a record of eight fields or
  more, read at the line the transaction names, and its foreign fields are set only
  when the foreign-currency column of that record, trimmed, is neither empty nor the
  literal \<open>EUR\<close> (the settlement currency the parser assumes; the settlement-currency
  column is not looked at): then the foreign currency is that column, the foreign
  amount is the foreign-amount column when it parses and 0 otherwise, and the exchange
  rate is the exchange-rate column when it parses to a number above 0 and 0 otherwise.
  In every other case the three fields keep their defaults 0, the empty string and 0.
\<close>

theorem foreign_fields_only_for_foreign_currency:
  assumes "Parse F ctx rd src = Some (Inr res)" and "t \<in> set (Transactions res)"
  shows "\<exists>k rec. rd k = Read_ok rec \<and> SourceLine t = Suc k \<and> expectedColumnCount \<le> length rec \<and>
    (if TrimSpace (rec ! colForeignCurrency) \<noteq> [] \<and> TrimSpace (rec ! colForeignCurrency) \<noteq> ''EUR''
     then ForeignCurrency t = TrimSpace (rec ! colForeignCurrency) \<and>
          ForeignAmount t =
            (case parseAmount F (TrimSpace (rec ! colForeignAmount)) of
               Inr x \<Rightarrow> x | Inl err \<Rightarrow> 0) \<and>
          ExchangeRate t =
            (case parseExchangeRate F (TrimSpace (rec ! colExchangeRate)) of
               Inr x \<Rightarrow> if float_gt_zero x then x else 0 | Inl err \<Rightarrow> 0)
     else ForeignCurrency t = [] \<and> ForeignAmount t = 0 \<and> ExchangeRate t = 0)"
proof -
  from assms(1) obtain n where "res = result (state_after F src rd n)"
    by (rule Parse_Inr_state_after)
  with assms(2) have "t \<in> set (Transactions (result (state_after F src rd n)))" by simp
  from transactions_provenance[OF this] obtain k rec parsed where
    dr: "data_row rd k rec" and len: "expectedColumnCount \<le> length rec"
    and p: "parseTransaction F rec (Suc k) src = Inr parsed"
    and t: "t = finish F (state_after F src rd k) parsed"
    by blast
  from dr have rk: "rd k = Read_ok rec" by (simp add: data_row_def)
  from t have f: "SourceLine t = SourceLine parsed" "ForeignCurrency t = ForeignCurrency parsed"
    "ForeignAmount t = ForeignAmount parsed" "ExchangeRate t = ExchangeRate parsed"
    by (simp_all add: finish_fields)
  have "SourceLine parsed = Suc k \<and>
    (if TrimSpace (rec ! colForeignCurrency) \<noteq> [] \<and> TrimSpace (rec ! colForeignCurrency) \<noteq> ''EUR''
     then ForeignCurrency parsed = TrimSpace (rec ! colForeignCurrency) \<and>
          ForeignAmount parsed =
            (case parseAmount F (TrimSpace (rec ! colForeignAmount)) of
               Inr x \<Rightarrow> x | Inl err \<Rightarrow> 0) \<and>
          ExchangeRate parsed =
            (case parseExchangeRate F (TrimSpace (rec ! colExchangeRate)) of
               Inr x \<Rightarrow> if float_gt_zero x then x else 0 | Inl err \<Rightarrow> 0)
     else ForeignCurrency parsed = [] \<and> ForeignAmount parsed = 0 \<and> ExchangeRate parsed = 0)"
    by (rule parseTransaction_Inr[OF len p])
       (simp add: colForeignCurrency_def colForeignAmount_def colExchangeRate_def)
  with f rk len show ?thesis by auto
qed

theorem foreign_fields_only_for_foreign_currency_witness:
  "Parse sample_floats None (reader_of usd_statement) ''statement.csv'' = Some (Inr usd_result) \<and>
   length (Transactions usd_result) = 1 \<and>
   reader_of usd_statement 5 = Read_ok row_usd \<and>
   SourceLine (hd (Transactions usd_result)) = 6 \<and>
   TrimSpace (row_usd ! colForeignCurrency) = ''USD'' \<and>
   ForeignCurrency (hd (Transactions usd_result)) = ''USD'' \<and>
   ForeignAmount (hd (Transactions usd_result)) = 0xC029000000000000 \<and>
   ExchangeRate (hd (Transactions usd_result)) = 0"
proof -
  let ?t = "hd (Transactions usd_result)"
  have mem: "?t \<in> set (Transactions usd_result)" by (simp add: usd_result_def)
  have line: "SourceLine ?t = 6" by (simp add: usd_result_def)
  from foreign_fields_only_for_foreign_currency[OF usd_Parse mem] obtain k rec where
    k: "reader_of usd_statement k = Read_ok rec" "SourceLine ?t = Suc k"
    and c: "if TrimSpace (rec ! colForeignCurrency) \<noteq> [] \<and>
               TrimSpace (rec ! colForeignCurrency) \<noteq> ''EUR''
     then ForeignCurrency ?t = TrimSpace (rec ! colForeignCurrency) \<and>
          ForeignAmount ?t =
            (case parseAmount sample_floats (TrimSpace (rec ! colForeignAmount)) of
               Inr x \<Rightarrow> x | Inl err \<Rightarrow> 0) \<and>
          ExchangeRate ?t =
            (case parseExchangeRate sample_floats (TrimSpace (rec ! colExchangeRate)) of
               Inr x \<Rightarrow> if float_gt_zero x then x else 0 | Inl err \<Rightarrow> 0)
     else ForeignCurrency ?t = [] \<and> ForeignAmount ?t = 0 \<and> ExchangeRate ?t = 0"
    by blast
  from k(2) line have "k = 5" by simp
  have r5: "reader_of usd_statement 5 = Read_ok row_usd"
    by (simp add: reader_of_def usd_statement_def preamble_def)
  with k(1) \<open>k = 5\<close> have rec: "rec = row_usd" by simp
  have fc: "TrimSpace (row_usd ! colForeignCurrency) = ''USD''"
    by (simp add: row_usd_def colForeignCurrency_def eval_trim)
  have fa: "parseAmount sample_floats (TrimSpace (row_usd ! colForeignAmount))
              = Inr 0xC029000000000000"
    by (simp add: row_usd_def colForeignAmount_def parseAmount_def sample_ParseFloat eval_trim)
  have er: "parseExchangeRate sample_floats (TrimSpace (row_usd ! colExchangeRate)) = Inr 0"
    by (simp add: row_usd_def colExchangeRate_def parseExchangeRate_def)
  from c rec fc fa er have "ForeignCurrency ?t = ''USD'' \<and>
      ForeignAmount ?t = 0xC029000000000000 \<and> ExchangeRate ?t = 0"
    by (simp add: float_gt_zero_def float_ne_zero_def)
  with usd_Parse r5 line fc show ?thesis by (simp add: usd_result_def)
qed

section \<open>The fee association\<close>

lemma valid_row_iff:
  "valid_row F src rd k =
     (\<exists>rec parsed. data_row rd k rec \<and> expectedColumnCount \<le> length rec \<and>
        parseTransaction F rec (Suc k) src = Inr parsed)"
proof (cases "rd k")
  case (Read_ok rec)
  then show ?thesis
    by (cases "parseTransaction F rec (Suc k) src") (auto simp: valid_row_def data_row_def)
next
  case (Read_err rec msg)
  then show ?thesis by (simp add: valid_row_def data_row_def)
next
  case Read_EOF
  then show ?thesis by (simp add: valid_row_def data_row_def)
qed

lemma previous_unchanged:
  assumes "\<not> valid_row F src rd k"
  shows "previousTransaction (state_after F src rd (Suc k)) =
         previousTransaction (state_after F src rd k) \<and>
         Transactions (result (state_after F src rd (Suc k))) =
         Transactions (result (state_after F src rd k))"
proof (cases rule: row_cases[where rd=rd and k=k and F=F and src=src])
  case eof
  then show ?thesis by (simp add: step_EOF)
next
  case (fault rec msg)
  then show ?thesis by (simp add: step_fault add_error_def)
next
  case skip
  from step_skip[OF skip, of F src] show ?thesis by auto
next
  case (short rec)
  then show ?thesis by (simp add: step_short add_error_def)
next
  case (invalid rec err)
  then show ?thesis by (simp add: step_invalid add_error_def)
next
  case (valid rec parsed)
  with assms show ?thesis by (auto simp: valid_row_iff)
qed

lemma previous_is_last:
  "previousTransaction (state_after F src rd n) =
     (if Transactions (result (state_after F src rd n)) = [] then None
      else Some (last (Transactions (result (state_after F src rd n)))))"
proof (induction n)
  case 0
  show ?case by (simp add: state_after_0 initial_state_def)
next
  case (Suc n)
  show ?case
  proof (cases "valid_row F src rd n")
    case False
    from previous_unchanged[OF this] Suc show ?thesis by simp
  next
    case True
    then obtain rec parsed where "data_row rd n rec" "expectedColumnCount \<le> length rec"
      "parseTransaction F rec (Suc n) src = Inr parsed"
      by (auto simp: valid_row_iff)
    then show ?thesis by (simp add: step_valid)
  qed
qed

lemma previous_over_gap:
  assumes "k \<le> m" and "\<forall>j. k \<le> j \<and> j < m \<longrightarrow> \<not> valid_row F src rd j"
  shows "previousTransaction (state_after F src rd m) = previousTransaction (state_after F src rd k)"
  using assms
proof (induction m)
  case 0
  then show ?case by simp
next
  case (Suc m)
  show ?case
  proof (cases "k = Suc m")
    case True
    then show ?thesis by simp
  next
    case False
    with Suc.prems have km: "k \<le> m" and nv: "\<not> valid_row F src rd m"
      and gap: "\<forall>j. k \<le> j \<and> j < m \<longrightarrow> \<not> valid_row F src rd j"
      by auto
    from previous_unchanged[OF nv] Suc.IH[OF km gap] show ?thesis by simp
  qed
qed

lemma memo_associate_fee:
  assumes "Memo p = []"
  shows "Memo (associate_fee prev p) =
     (case prev of
        None \<Rightarrow> []
      | Some q \<Rightarrow> if is_fee p \<and> is_foreign q then ''Fee for transaction: '' @ Payee q else [])"
  using assms by (simp add: associate_fee_def is_fee_def is_foreign_def split: option.splits)

text \<open>The memo of every transaction of the list, from the transaction before it.\<close>

lemma is_fee_finish: "is_fee (finish F st p) = is_fee p"
  by (simp add: is_fee_def finish_fields)

lemma memo_invariant:
  "\<forall>i<length (Transactions (result (state_after F src rd n))).
     Memo (Transactions (result (state_after F src rd n)) ! i) =
     memo_of (Transactions (result (state_after F src rd n))) i"
proof (induction n)
  case 0
  show ?case by (simp add: state_after_0 initial_state_def)
next
  case (Suc n)
  let ?st = "state_after F src rd n"
  let ?ts = "Transactions (result ?st)"
  show ?case
  proof (cases "valid_row F src rd n")
    case False
    from previous_unchanged[OF this] Suc show ?thesis by simp
  next
    case True
    then obtain rec parsed where dr: "data_row rd n rec" and len: "expectedColumnCount \<le> length rec"
      and p: "parseTransaction F rec (Suc n) src = Inr parsed"
      by (auto simp: valid_row_iff)
    let ?t = "finish F ?st parsed"
    from dr len p have ts': "Transactions (result (state_after F src rd (Suc n))) = ?ts @ [?t]"
      by (simp add: step_valid)
    from len p have m0: "Memo parsed = []" by (rule parseTransaction_Memo)
    have new: "Memo ?t = memo_of (?ts @ [?t]) (length ?ts)"
    proof (cases "?ts = []")
      case True
      then have "previousTransaction ?st = None" by (simp add: previous_is_last)
      with True m0 show ?thesis by (simp add: finish_fields memo_associate_fee memo_of_def)
    next
      case False
      then have "previousTransaction ?st = Some (last ?ts)" by (simp add: previous_is_last)
      moreover from False have "(?ts @ [?t]) ! (length ?ts - 1) = last ?ts"
        by (simp add: nth_append last_conv_nth)
      ultimately show ?thesis using False m0
        by (simp add: finish_fields memo_associate_fee memo_of_def is_fee_finish)
    qed
    show ?thesis
    proof (intro allI impI)
      fix i assume "i < length (Transactions (result (state_after F src rd (Suc n))))"
      with ts' have "i < length ?ts \<or> i = length ?ts" by auto
      then show "Memo (Transactions (result (state_after F src rd (Suc n))) ! i) =
                 memo_of (Transactions (result (state_after F src rd (Suc n)))) i"
      proof
        assume i: "i < length ?ts"
        with Suc have "Memo (?ts ! i) = memo_of ?ts i" by simp
        moreover from i have "i - 1 < length ?ts" by simp
        with i have "(?ts @ [?t]) ! i = ?ts ! i" "(?ts @ [?t]) ! (i - 1) = ?ts ! (i - 1)"
          by (simp_all only: nth_append if_True)
        then have "memo_of (?ts @ [?t]) i = memo_of ?ts i"
          by (simp only: memo_of_def)
        ultimately show ?thesis using i ts' by (simp add: nth_append)
      next
        assume "i = length ?ts"
        with new ts' show ?thesis by simp
      qed
    qed
  qed
qed

text \<open>
  C6. In what \<open>Parse\<close> returns, a transaction whose payee contains the fee marker has a
  non-empty memo if and only if it is not the first transaction and the transaction
  before it in the list (the previous row that was parsed with success) carries a
  non-empty foreign currency and a non-zero foreign amount; the memo is then the fixed
  text followed by the payee of that transaction. So a fee row that is the first
  transaction, or that follows a domestic transaction, has an empty memo.
\<close>

theorem fee_memo_iff_previous_foreign:
  assumes "Parse F ctx rd src = Some (Inr res)" and "i < length (Transactions res)"
    and "is_fee (Transactions res ! i)"
  shows "(Memo (Transactions res ! i) \<noteq> []) = (0 < i \<and> is_foreign (Transactions res ! (i - 1))) \<and>
         (Memo (Transactions res ! i) \<noteq> [] \<longrightarrow>
            Memo (Transactions res ! i) =
              ''Fee for transaction: '' @ Payee (Transactions res ! (i - 1)))"
proof -
  from assms(1) obtain n where "res = result (state_after F src rd n)"
    by (rule Parse_Inr_state_after)
  with assms(2) memo_invariant[of F src rd n]
  have "Memo (Transactions res ! i) = memo_of (Transactions res) i" by simp
  with assms(3) show ?thesis by (simp add: memo_of_def)
qed

lemma sample_fees:
  "is_fee (Transactions (sample_result src) ! 1)"
  "is_foreign (Transactions (sample_result src) ! 0)"
  "is_fee (Transactions (sample_result src) ! 3)"
  "\<not> is_foreign (Transactions (sample_result src) ! 2)"
  "Payee (Transactions (sample_result src) ! 0) = ''RECALL''"
  by (simp_all add: sample_result_def is_fee_def is_foreign_def Contains_def sublist_code
      feeIdentifier_def float_ne_zero_def)

theorem fee_memo_iff_previous_foreign_witness:
  "Parse sample_floats None (reader_of sample_statement) ''statement.csv''
     = Some (Inr (sample_result ''statement.csv'')) \<and>
   is_fee (Transactions (sample_result ''statement.csv'') ! 1) \<and>
   is_foreign (Transactions (sample_result ''statement.csv'') ! 0) \<and>
   Memo (Transactions (sample_result ''statement.csv'') ! 1) = ''Fee for transaction: RECALL'' \<and>
   is_fee (Transactions (sample_result ''statement.csv'') ! 3) \<and>
   \<not> is_foreign (Transactions (sample_result ''statement.csv'') ! 2) \<and>
   Memo (Transactions (sample_result ''statement.csv'') ! 3) = []"
proof -
  let ?ts = "Transactions (sample_result ''statement.csv'')"
  have len: "1 < length ?ts" "3 < length ?ts" by (simp_all add: sample_result_def)
  note one = fee_memo_iff_previous_foreign[OF sample_Parse len(1) sample_fees(1)]
  note three = fee_memo_iff_previous_foreign[OF sample_Parse len(2) sample_fees(3)]
  from one sample_fees(2)[of "''statement.csv''"] sample_fees(5)[of "''statement.csv''"]
  have "Memo (?ts ! 1) = ''Fee for transaction: RECALL''" by simp
  moreover from three sample_fees(4)[of "''statement.csv''"] have "Memo (?ts ! 3) = []" by simp
  ultimately show ?thesis using sample_Parse sample_fees by simp
qed

text \<open>
  C10. The previous transaction that the fee association looks at is, at every point of
  the loop, the last transaction that was appended, so the most recent row parsed with
  success; an iteration that does not append one (a read fault, a skipped row, a row
  that fails validation) leaves it as it was. So when the record of call \<open>k\<close> gives
  a foreign transaction, no record between it and the record of call \<open>m\<close> is a valid
  row, and the record of call \<open>m\<close> is a valid fee row, the transaction of line
  \<open>m + 1\<close> in the result has the memo that names the payee of the row of call \<open>k\<close>,
  however many records lie between.
\<close>

theorem fee_associates_with_last_successful_row:
  assumes "data_row rd k rec" and "expectedColumnCount \<le> length rec"
    and "parseTransaction F rec (Suc k) src = Inr p" and "is_foreign p"
    and "k < m" and "\<forall>j. k < j \<and> j < m \<longrightarrow> \<not> valid_row F src rd j"
    and "data_row rd m rec'" and "expectedColumnCount \<le> length rec'"
    and "parseTransaction F rec' (Suc m) src = Inr q" and "is_fee q"
    and "\<forall>j\<le>m. rd j \<noteq> Read_EOF"
    and "Parse F ctx rd src = Some (Inr res)"
  shows "(\<forall>n. previousTransaction (state_after F src rd n) =
            (if Transactions (result (state_after F src rd n)) = [] then None
             else Some (last (Transactions (result (state_after F src rd n)))))) \<and>
         (\<forall>j. \<not> valid_row F src rd j \<longrightarrow>
            previousTransaction (state_after F src rd (Suc j)) =
            previousTransaction (state_after F src rd j)) \<and>
         (\<exists>t\<in>set (Transactions res).
            SourceLine t = Suc m \<and> Memo t = ''Fee for transaction: '' @ Payee p)"
proof -
  let ?prev = "finish F (state_after F src rd k) p"
  let ?t = "finish F (state_after F src rd m) q"
  from assms(1-3) have "previousTransaction (state_after F src rd (Suc k)) = Some ?prev"
    by (simp add: step_valid)
  moreover from assms(5,6)
  have "previousTransaction (state_after F src rd m) =
        previousTransaction (state_after F src rd (Suc k))"
    by (intro previous_over_gap) auto
  ultimately have prev: "previousTransaction (state_after F src rd m) = Some ?prev" by simp
  from assms(8,9) have "Memo q = []" by (rule parseTransaction_Memo)
  with prev assms(4,10) have memo: "Memo ?t = ''Fee for transaction: '' @ Payee p"
    by (simp add: finish_fields memo_associate_fee is_foreign_def)
  from assms(8,9) have line: "SourceLine ?t = Suc m"
    by (simp add: finish_fields parseTransaction_SourceLine)
  from assms(12) obtain n where ne: "\<forall>j<n. \<not> or_Background ctx j \<and> rd j \<noteq> Read_EOF"
    and eof: "rd n = Read_EOF" and res: "res = result (state_after F src rd n)"
    by (rule Parse_Inr_state_after)
  from eof assms(11) have "m < n" by (metis not_le_imp_less)
  from valid_row_emitted[OF this assms(7,8,9)] res have "?t \<in> set (Transactions res)" by simp
  with memo line have "\<exists>t\<in>set (Transactions res).
      SourceLine t = Suc m \<and> Memo t = ''Fee for transaction: '' @ Payee p"
    by blast
  moreover have "\<forall>j. \<not> valid_row F src rd j \<longrightarrow>
      previousTransaction (state_after F src rd (Suc j)) =
      previousTransaction (state_after F src rd j)"
    using previous_unchanged by blast
  moreover have "\<forall>n. previousTransaction (state_after F src rd n) =
      (if Transactions (result (state_after F src rd n)) = [] then None
       else Some (last (Transactions (result (state_after F src rd n)))))"
    using previous_is_last by blast
  ultimately show ?thesis by blast
qed

lemma sample_reader_rows:
  "reader_of sample_statement 5 = Read_ok row_foreign"
  "reader_of sample_statement 9 = Read_ok [[]]"
  "reader_of sample_statement 10 = Read_ok row_fee"
  by (simp_all add: reader_of_def sample_statement_def preamble_def)

lemma sample_data_rows_fee:
  "data_row (reader_of sample_statement) 5 row_foreign"
  "data_row (reader_of sample_statement) 10 row_fee"
  by (simp_all add: data_row_def skipped_def sample_reader_rows is_column_header_def
      sample_past_header row_foreign_class row_fee_class)

lemma reader_of_not_EOF:
  assumes "Read_EOF \<notin> set rrs" and "j < length rrs"
  shows "reader_of rrs j \<noteq> Read_EOF"
proof -
  from assms(2) have "rrs ! j \<in> set rrs" by simp
  with assms(1) have "rrs ! j \<noteq> Read_EOF" by metis
  with assms(2) show ?thesis by (simp add: reader_of_def)
qed

lemma sample_not_EOF: "j < 15 \<Longrightarrow> reader_of sample_statement j \<noteq> Read_EOF"
  by (rule reader_of_not_EOF) (simp_all add: sample_statement_def preamble_def)

lemma sample_gap_rows:
  "\<not> valid_row sample_floats src (reader_of sample_statement) 6"
  "\<not> valid_row sample_floats src (reader_of sample_statement) 7"
  "\<not> valid_row sample_floats src (reader_of sample_statement) 8"
  "\<not> valid_row sample_floats src (reader_of sample_statement) 9"
     apply (simp add: valid_row_def sample_reader_at)
    apply (simp add: valid_row_def sample_reader_at expectedColumnCount_def row_short_class)
   apply (simp add: valid_row_def sample_reader_at parse_row_bad_date)
  apply (simp add: valid_row_def sample_reader_rows skipped_def row_blank_class)
  done

lemma sample_gap:
  "\<forall>j. 5 < j \<and> j < 10 \<longrightarrow> \<not> valid_row sample_floats src (reader_of sample_statement) j"
proof (intro allI impI)
  fix j :: nat assume "5 < j \<and> j < 10"
  then have "j = 6 \<or> j = 7 \<or> j = 8 \<or> j = 9" by arith
  then show "\<not> valid_row sample_floats src (reader_of sample_statement) j"
    using sample_gap_rows[of src] by blast
qed

theorem fee_associates_with_last_successful_row_witness:
  "data_row (reader_of sample_statement) 5 row_foreign \<and>
   map_sum id Payee (parseTransaction sample_floats row_foreign 6 ''statement.csv'')
     = Inr ''RECALL'' \<and>
   reader_of sample_statement 6 = Read_err [] ''bare quote'' \<and>
   reader_of sample_statement 7 = Read_ok row_short \<and>
   reader_of sample_statement 8 = Read_ok row_bad_date \<and>
   reader_of sample_statement 9 = Read_ok [[]] \<and>
   data_row (reader_of sample_statement) 10 row_fee \<and>
   Parse sample_floats None (reader_of sample_statement) ''statement.csv''
     = Some (Inr (sample_result ''statement.csv'')) \<and>
   (11, ''Fee for transaction: RECALL'')
     \<in> (\<lambda>t. (SourceLine t, Memo t)) ` set (Transactions (sample_result ''statement.csv''))"
proof -
  let ?rd = "reader_of sample_statement"
  let ?p = "\<lparr>Date = \<lparr>year = 2026, month = 1, day = 28\<rparr>,
        PostingDate = \<lparr>year = 2026, month = 1, day = 29\<rparr>, Payee = ''RECALL'',
        Memo = [], Amount = 0xC024000000000000, Currency = ''EUR'',
        ForeignAmount = 0xC029000000000000, ForeignCurrency = ''USD'',
        ExchangeRate = 0, ImportID = [], SourceFile = ''statement.csv'', SourceLine = 6\<rparr>"
  let ?q = "\<lparr>Date = \<lparr>year = 2026, month = 1, day = 28\<rparr>,
        PostingDate = \<lparr>year = 2026, month = 1, day = 29\<rparr>,
        Payee = ''AUSLANDSEINSATZENTGELT'',
        Memo = [], Amount = 0xC024000000000000, Currency = ''EUR'',
        ForeignAmount = 0, ForeignCurrency = [],
        ExchangeRate = 0, ImportID = [], SourceFile = ''statement.csv'', SourceLine = 11\<rparr>"
  have l1: "expectedColumnCount \<le> length row_foreign" "expectedColumnCount \<le> length row_fee"
    by (simp_all add: expectedColumnCount_def row_foreign_class row_fee_class)
  have p: "parseTransaction sample_floats row_foreign (Suc 5) ''statement.csv'' = Inr ?p"
    by (simp add: parse_row_foreign)
  have q: "parseTransaction sample_floats row_fee (Suc 10) ''statement.csv'' = Inr ?q"
    by (simp add: parse_row_fee)
  have fp: "is_foreign ?p" by (simp add: is_foreign_def float_ne_zero_def)
  have fq: "is_fee ?q" by (simp add: is_fee_def Contains_def sublist_code feeIdentifier_def)
  have ne: "\<forall>j\<le>10. ?rd j \<noteq> Read_EOF"
    by (simp add: sample_not_EOF)
  have lt: "(5::nat) < 10" by simp
  note inst = fee_associates_with_last_successful_row[OF sample_data_rows_fee(1) l1(1) p fp lt
      sample_gap sample_data_rows_fee(2) l1(2) q fq ne sample_Parse]
  from conjunct2[OF conjunct2[OF inst]]
  obtain t where t: "t \<in> set (Transactions (sample_result ''statement.csv''))"
    and "SourceLine t = Suc 10" and "Memo t = ''Fee for transaction: '' @ Payee ?p"
    by blast
  then have "(11, ''Fee for transaction: RECALL'') = (SourceLine t, Memo t)"
    by simp
  from this t have "(11, ''Fee for transaction: RECALL'')
     \<in> (\<lambda>t. (SourceLine t, Memo t)) ` set (Transactions (sample_result ''statement.csv''))"
    by (rule image_eqI[where f="\<lambda>t. (SourceLine t, Memo t)"])
  with sample_data_rows_fee sample_reader_at sample_reader_rows sample_Parse show ?thesis
    by (simp add: parse_row_foreign)
qed

section \<open>The import identifier\<close>

lemma digit_char_cases:
  assumes "d < 10"
  shows "digit_char d \<in> set ''0123456789'' \<and> digit_val (digit_char d) = d"
proof -
  from assms have "d = 0 \<or> d = 1 \<or> d = 2 \<or> d = 3 \<or> d = 4 \<or> d = 5 \<or> d = 6 \<or> d = 7 \<or>
      d = 8 \<or> d = 9"
    by arith
  then show ?thesis by (auto simp: digit_char_def digit_val_def)
qed

lemma set_digits: "set (digits n) \<subseteq> set ''0123456789''"
proof (induction n rule: digits.induct)
  case (1 n)
  show ?case
  proof (cases "n < 10")
    case True
    with digit_char_cases[of n] show ?thesis by (simp add: digits.simps[of n])
  next
    case False
    have "n mod 10 < 10" by simp
    from digit_char_cases[OF this] have "digit_char (n mod 10) \<in> set ''0123456789''" by simp
    with False 1 show ?thesis by (simp add: digits.simps[of n])
  qed
qed

lemma digits_value_digits: "digits_value (digits n) = n"
proof (induction n rule: digits.induct)
  case (1 n)
  show ?case
  proof (cases "n < 10")
    case True
    with digit_char_cases[of n] show ?thesis
      by (simp add: digits.simps[of n] digits_value_def)
  next
    case False
    have "n mod 10 < 10" by simp
    from digit_char_cases[OF this] have "digit_val (digit_char (n mod 10)) = n mod 10" by simp
    moreover from False 1 have "digits_value (digits (n div 10)) = n div 10" by simp
    ultimately show ?thesis using False
      by (simp add: digits.simps[of n] digits_value_def)
  qed
qed

lemma digits_inject: "digits m = digits n \<Longrightarrow> m = n"
  by (metis digits_value_digits)

lemma digits_not_Nil: "digits n \<noteq> []"
  by (subst digits.simps) simp

lemma colon_not_in_digits: "CHR '':'' \<notin> set (digits n)"
  using set_digits[of n] by auto

lemma minus_not_in_digits: "CHR ''-'' \<notin> set (digits n)"
  using set_digits[of n] by auto

lemma colon_not_in_Sprintf_d: "CHR '':'' \<notin> set (Sprintf_d i)"
  by (simp add: Sprintf_d_def colon_not_in_digits)

lemma Sprintf_d_inject:
  assumes "Sprintf_d a = Sprintf_d b"
  shows "a = b"
proof (cases "a < 0")
  case True
  show ?thesis
  proof (cases "b < 0")
    case b: True
    with True assms have "digits (nat (- a)) = digits (nat (- b))" by (simp add: Sprintf_d_def)
    then have "nat (- a) = nat (- b)" by (rule digits_inject)
    with True b show ?thesis by simp
  next
    case False
    with True assms have "CHR ''-'' # digits (nat (- a)) = digits (nat b)"
      by (simp add: Sprintf_d_def)
    then have "CHR ''-'' \<in> set (digits (nat b))" by (metis list.set_intros(1))
    with minus_not_in_digits show ?thesis by blast
  qed
next
  case False
  show ?thesis
  proof (cases "b < 0")
    case True
    with False assms have "digits (nat a) = CHR ''-'' # digits (nat (- b))"
      by (simp add: Sprintf_d_def)
    then have "CHR ''-'' \<in> set (digits (nat a))" by (metis list.set_intros(1))
    with minus_not_in_digits show ?thesis by blast
  next
    case b: False
    with False assms have "digits (nat a) = digits (nat b)" by (simp add: Sprintf_d_def)
    then have "nat a = nat b" by (rule digits_inject)
    with False b show ?thesis by simp
  qed
qed

lemma split_at_separator:
  assumes "c \<notin> set u" and "c \<notin> set v" and "u @ c # x = v @ c # y"
  shows "u = v \<and> x = y"
  using assms
proof (induction u arbitrary: v)
  case Nil
  then show ?case by (cases v) auto
next
  case (Cons a u)
  then show ?case by (cases v) auto
qed

lemma baseKey_eq_iff:
  "baseKey F t = baseKey F u \<longleftrightarrow>
     mul1000_int64 F (Amount t) = mul1000_int64 F (Amount u) \<and>
     Format_iso (Date t) = Format_iso (Date u)"
proof
  assume "baseKey F t = baseKey F u"
  then have "Sprintf_d (mul1000_int64 F (Amount t)) @ CHR '':'' # Format_iso (Date t) =
             Sprintf_d (mul1000_int64 F (Amount u)) @ CHR '':'' # Format_iso (Date u)"
    by (simp add: baseKey_def)
  from split_at_separator[OF colon_not_in_Sprintf_d colon_not_in_Sprintf_d this]
  show "mul1000_int64 F (Amount t) = mul1000_int64 F (Amount u) \<and>
     Format_iso (Date t) = Format_iso (Date u)"
    by (auto dest: Sprintf_d_inject)
next
  assume "mul1000_int64 F (Amount t) = mul1000_int64 F (Amount u) \<and>
     Format_iso (Date t) = Format_iso (Date u)"
  then show "baseKey F t = baseKey F u" by (simp add: baseKey_def)
qed

lemma key_count_snoc:
  "key_count F key (ts @ [t]) = key_count F key ts + (if baseKey F t = key then 1 else 0)"
  by (simp add: key_count_def)

lemma baseKey_finish: "baseKey F (finish F st p) = baseKey F p"
  by (simp add: baseKey_def finish_fields)

lemma baseKey_associate_fee: "baseKey F (associate_fee prev p) = baseKey F p"
  by (simp add: baseKey_def associate_fee_fields)

lemma generateImportID_eq:
  "generateImportID F t om =
     (''YNAB:'' @ Sprintf_d (mul1000_int64 F (Amount t)) @ '':'' @ Format_iso (Date t) @ '':'' @
        Sprintf_d ((case om (baseKey F t) of None \<Rightarrow> 0 | Some n \<Rightarrow> n) + 1),
      om(baseKey F t \<mapsto> (case om (baseKey F t) of None \<Rightarrow> 0 | Some n \<Rightarrow> n) + 1))"
  by (simp add: generateImportID_def baseKey_def Let_def)

lemma occurrenceMap_invariant:
  "occurrenceMap (state_after F src rd n) key =
     (if key_count F key (Transactions (result (state_after F src rd n))) = 0 then None
      else Some (int (key_count F key (Transactions (result (state_after F src rd n))))))"
proof (induction n arbitrary: key)
  case 0
  show ?case by (simp add: state_after_0 initial_state_def key_count_def)
next
  case (Suc n)
  let ?st = "state_after F src rd n"
  show ?case
  proof (cases rule: row_cases[where rd=rd and k=n and F=F and src=src])
    case eof
    with Suc show ?thesis by (simp add: step_EOF)
  next
    case (fault rec msg)
    with Suc show ?thesis by (simp add: step_fault add_error_def)
  next
    case skip
    from step_skip[OF skip, of F src] obtain h where
      "state_after F src rd (Suc n) = ?st\<lparr>lineNumber := Suc n, headerSkipped := h\<rparr>"
      by blast
    with Suc show ?thesis by simp
  next
    case (short rec)
    with Suc show ?thesis by (simp add: step_short add_error_def)
  next
    case (invalid rec err)
    with Suc show ?thesis by (simp add: step_invalid add_error_def)
  next
    case (valid rec parsed)
    let ?k = "baseKey F parsed"
    from valid have om: "occurrenceMap (state_after F src rd (Suc n)) =
        (occurrenceMap ?st)(?k \<mapsto> (case occurrenceMap ?st ?k of None \<Rightarrow> 0 | Some n \<Rightarrow> n) + 1)"
      by (simp add: step_valid generateImportID_eq baseKey_associate_fee)
    from valid have ts: "Transactions (result (state_after F src rd (Suc n))) =
        Transactions (result ?st) @ [finish F ?st parsed]"
      by (simp add: step_valid)
    show ?thesis
    proof (cases "key = ?k")
      case True
      with om ts Suc[of ?k] show ?thesis by (simp add: key_count_snoc baseKey_finish)
    next
      case False
      with om ts Suc[of key] show ?thesis by (simp add: key_count_snoc baseKey_finish)
    qed
  qed
qed

lemma importID_invariant:
  "\<forall>i<length (Transactions (result (state_after F src rd n))).
     ImportID (Transactions (result (state_after F src rd n)) ! i) =
     id_of F (Transactions (result (state_after F src rd n))) i"
proof (induction n)
  case 0
  show ?case by (simp add: state_after_0 initial_state_def)
next
  case (Suc n)
  let ?st = "state_after F src rd n"
  let ?ts = "Transactions (result ?st)"
  show ?case
  proof (cases "valid_row F src rd n")
    case False
    from previous_unchanged[OF this] Suc show ?thesis by simp
  next
    case True
    then obtain rec parsed where dr: "data_row rd n rec" and len: "expectedColumnCount \<le> length rec"
      and p: "parseTransaction F rec (Suc n) src = Inr parsed"
      by (auto simp: valid_row_iff)
    let ?t = "finish F ?st parsed"
    from dr len p have ts': "Transactions (result (state_after F src rd (Suc n))) = ?ts @ [?t]"
      by (simp add: step_valid)
    have "ImportID ?t =
        ''YNAB:'' @ Sprintf_d (mul1000_int64 F (Amount parsed)) @ '':'' @
        Format_iso (Date parsed) @ '':'' @
        Sprintf_d ((case occurrenceMap ?st (baseKey F parsed) of None \<Rightarrow> 0 | Some n \<Rightarrow> n) + 1)"
      by (simp add: finish_def Let_def generateImportID_eq baseKey_associate_fee
          associate_fee_fields)
    moreover have "(case occurrenceMap ?st (baseKey F parsed) of None \<Rightarrow> 0 | Some n \<Rightarrow> n) =
        int (key_count F (baseKey F parsed) ?ts)"
      by (simp add: occurrenceMap_invariant)
    ultimately have new: "ImportID ?t = id_of F (?ts @ [?t]) (length ?ts)"
      by (simp add: id_of_def finish_fields baseKey_finish add.commute)
    show ?thesis
    proof (intro allI impI)
      fix i assume "i < length (Transactions (result (state_after F src rd (Suc n))))"
      with ts' have "i < length ?ts \<or> i = length ?ts" by auto
      then show "ImportID (Transactions (result (state_after F src rd (Suc n))) ! i) =
                 id_of F (Transactions (result (state_after F src rd (Suc n)))) i"
      proof
        assume i: "i < length ?ts"
        with Suc have "ImportID (?ts ! i) = id_of F ?ts i" by simp
        moreover from i have "(?ts @ [?t]) ! i = ?ts ! i" "take i (?ts @ [?t]) = take i ?ts"
          by (simp_all add: nth_append)
        then have "id_of F (?ts @ [?t]) i = id_of F ?ts i" by (simp only: id_of_def)
        ultimately show ?thesis using i ts' by (simp add: nth_append)
      next
        assume "i = length ?ts"
        with new ts' show ?thesis by simp
      qed
    qed
  qed
qed

lemma key_count_occurrence:
  "1 + int (key_count F (baseKey F (ts ! i)) (take i ts)) = occurrence F ts i"
  by (simp add: key_count_def occurrence_def baseKey_eq_iff)

text \<open>
  C2. Every transaction of a result has the import identifier \<open>YNAB:\<close>, the milliunits
  in decimal, a colon, the date in the layout \<open>2006-01-02\<close>, a colon, and the occurrence
  in decimal, where the milliunits are \<open>int64(amount * 1000)\<close> and the occurrence is one
  more than the number of earlier transactions of the same call with the same
  milliunits and the same ISO date: 1 at the first use of the pair, one more at each
  repetition.
\<close>

theorem importID_format_and_occurrence:
  assumes "Parse F ctx rd src = Some (Inr res)" and "i < length (Transactions res)"
  shows "ImportID (Transactions res ! i) =
           ''YNAB:'' @ Sprintf_d (mul1000_int64 F (Amount (Transactions res ! i))) @ '':'' @
           Format_iso (Date (Transactions res ! i)) @ '':'' @
           Sprintf_d (occurrence F (Transactions res) i)"
proof -
  from assms(1) obtain n where "res = result (state_after F src rd n)"
    by (rule Parse_Inr_state_after)
  with assms(2) importID_invariant[of F src rd n]
  have "ImportID (Transactions res ! i) = id_of F (Transactions res) i" by simp
  then show ?thesis by (simp only: id_of_def key_count_occurrence)
qed

lemma sample_iso:
  "Format_iso \<lparr>year = 2026, month = 1, day = 5\<rparr> = ''2026-01-05''"
  "Format_iso \<lparr>year = 2026, month = 1, day = 28\<rparr> = ''2026-01-28''"
  "Format_iso \<lparr>year = 2026, month = Suc 0, day = 5\<rparr> = ''2026-01-05''"
  "Format_iso \<lparr>year = 2026, month = Suc 0, day = 28\<rparr> = ''2026-01-28''"
  by (simp_all add: Format_iso_def appendInt_def digits.simps digit_char_def Let_def)

lemma sample_occurrences:
  "occurrence sample_floats (Transactions (sample_result src)) 2 = 1"
  "occurrence sample_floats (Transactions (sample_result src)) 4 = 2"
  by (simp_all add: occurrence_def sample_result_def sample_mul1000 sample_iso)

theorem importID_format_and_occurrence_witness:
  "Parse sample_floats None (reader_of sample_statement) ''statement.csv''
     = Some (Inr (sample_result ''statement.csv'')) \<and>
   reader_of sample_statement 11 = Read_ok row_test \<and>
   SourceLine (Transactions (sample_result ''statement.csv'') ! 2) = 12 \<and>
   ImportID (Transactions (sample_result ''statement.csv'') ! 2) = ''YNAB:-10000:2026-01-05:1'' \<and>
   reader_of sample_statement 13 = Read_ok row_test \<and>
   SourceLine (Transactions (sample_result ''statement.csv'') ! 4) = 14 \<and>
   ImportID (Transactions (sample_result ''statement.csv'') ! 4) = ''YNAB:-10000:2026-01-05:2''"
proof -
  let ?ts = "Transactions (sample_result ''statement.csv'')"
  have len: "2 < length ?ts" "4 < length ?ts" by (simp_all add: sample_result_def)
  have f2: "Amount (?ts ! 2) = 0xC024000000000000" "Date (?ts ! 2) = \<lparr>year = 2026, month = 1, day = 5\<rparr>"
    and f4: "Amount (?ts ! 4) = 0xC024000000000000" "Date (?ts ! 4) = \<lparr>year = 2026, month = 1, day = 5\<rparr>"
    by (simp_all add: sample_result_def)
  have d: "Sprintf_d (- 10000) = ''-10000''" "Sprintf_d 1 = ''1''" "Sprintf_d 2 = ''2''"
    by (simp_all add: Sprintf_d_def digits.simps digit_char_def)
  from importID_format_and_occurrence[OF sample_Parse len(1)]
  have "ImportID (?ts ! 2) = ''YNAB:-10000:2026-01-05:1''"
    by (simp add: f2 sample_mul1000 sample_iso sample_occurrences d)
  moreover from importID_format_and_occurrence[OF sample_Parse len(2)]
  have "ImportID (?ts ! 4) = ''YNAB:-10000:2026-01-05:2''"
    by (simp add: f4 sample_mul1000 sample_iso sample_occurrences d)
  moreover have "reader_of sample_statement 11 = Read_ok row_test"
    "reader_of sample_statement 13 = Read_ok row_test"
    by (simp_all add: reader_of_def sample_statement_def preamble_def)
  moreover have "SourceLine (?ts ! 2) = 12" "SourceLine (?ts ! 4) = 14"
    by (simp_all add: sample_result_def)
  ultimately show ?thesis using sample_Parse by simp
qed

section \<open>Hard errors and collected failures\<close>

lemma row_problem_iff:
  "row_problem F rec = (length rec < expectedColumnCount \<or> isl (parseTransaction F rec l src))"
proof (cases "length rec < expectedColumnCount")
  case True
  then show ?thesis by (simp add: row_problem_def)
next
  case False
  then have "expectedColumnCount \<le> length rec" by simp
  from parseTransaction_isl[OF this, of F l src] False show ?thesis
    by (simp add: row_problem_def)
qed

lemma clean_Parse:
  "Parse sample_floats None (reader_of clean_statement) ''statement.csv''
     = Some (Inr clean_result)"
proof -
  have "Read_EOF \<notin> set clean_statement" by (simp add: clean_statement_def preamble_def)
  moreover have "result (run sample_floats ''statement.csv'' clean_statement initial_state)
      = clean_result"
    by (simp add: clean_statement_def clean_result_def run_append run_preamble eval_iteration
        eval_rows eval_id eval_fee)
  ultimately show ?thesis by (simp add: Parse_reader_of)
qed

text \<open>
  C1, as stated, fails. A malformed exchange rate is one of the problems of a row that
  the claim requires to be collected. In \<open>clean_statement\<close> the row of line 6 has the
  exchange-rate field \<open>abc\<close>, which \<open>parseExchangeRate\<close> refuses; the rows of lines 7
  and 8 have too few columns and a malformed date. The error list of the result holds
  the lines 7 and 8 only, and the row of line 6 is among the transactions.
\<close>

theorem row_problem_not_collected_counterexample:
  "reader_of clean_statement 5 = Read_ok row_foreign \<and>
   parseExchangeRate sample_floats (TrimSpace (row_foreign ! colExchangeRate))
     = Inl InvalidExchangeRate \<and>
   Parse sample_floats None (reader_of clean_statement) ''statement.csv''
     = Some (Inr clean_result) \<and>
   map Line (Errors clean_result) = [7, 8] \<and>
   map SourceLine (Transactions clean_result) = [6, 9]"
  by (simp add: clean_Parse)
     (simp add: clean_result_def reader_of_def clean_statement_def preamble_def
       row_foreign_def colExchangeRate_def parseExchangeRate_def sample_ParseFloat eval_trim)

text \<open>
  C1, amended. On a stream that is read without a read fault: \<open>Parse\<close> returns a hard
  error only when a check of the context finds it done, and the error is then the
  cancellation error. When the reader reaches \<open>io.EOF\<close> at call \<open>n\<close> and no check up to
  there finds the context done, \<open>Parse\<close> returns a result, however many rows fail. The
  problems of a data row that are collected are these: fewer than eight columns, a
  voucher date or a receipt date that is empty or malformed, an empty payee, an amount
  that is empty or malformed (they are the cases in which the row has too few columns or
  \<open>parseTransaction\<close> refuses it). Every data row with such a problem has its entry in
  the error list, with its line number, its fields and the cause; every other data row,
  also one whose exchange rate or foreign amount is malformed, is among the
  transactions; and the error list and the transactions hold nothing else. A call whose
  context is never done and whose reader never reports \<open>io.EOF\<close> does not return.
\<close>

theorem only_cancellation_aborts_row_failures_collected:
  assumes "\<forall>k. \<not> is_Read_err (rd k)"
  shows
  "(\<forall>e. Parse F ctx rd src = Some (Inl e) \<longrightarrow>
      e = ParsingCancelled \<and>
      (\<exists>k. or_Background ctx k \<and> (\<forall>j<k. \<not> or_Background ctx j \<and> rd j \<noteq> Read_EOF))) \<and>
   (\<forall>n. rd n = Read_EOF \<longrightarrow> (\<forall>j<n. rd j \<noteq> Read_EOF) \<longrightarrow> (\<forall>k\<le>n. \<not> or_Background ctx k) \<longrightarrow>
      (\<exists>res. Parse F ctx rd src = Some (Inr res) \<and>
         (\<forall>k<n. \<forall>rec. data_row rd k rec \<longrightarrow> length rec < expectedColumnCount \<longrightarrow>
            \<lparr>Line = Suc k, Row = rec,
             Error = ExpectedColumns expectedColumnCount (length rec)\<rparr> \<in> set (Errors res)) \<and>
         (\<forall>k<n. \<forall>rec err. data_row rd k rec \<longrightarrow> expectedColumnCount \<le> length rec \<longrightarrow>
            parseTransaction F rec (Suc k) src = Inl err \<longrightarrow>
            \<lparr>Line = Suc k, Row = rec, Error = err\<rparr> \<in> set (Errors res)) \<and>
         (\<forall>k<n. \<forall>rec. data_row rd k rec \<longrightarrow> \<not> row_problem F rec \<longrightarrow>
            (\<exists>t\<in>set (Transactions res). SourceLine t = Suc k)) \<and>
         (\<forall>e\<in>set (Errors res). \<exists>k<n. \<exists>rec.
            data_row rd k rec \<and> row_problem F rec \<and> Line e = Suc k \<and> Row e = rec) \<and>
         (\<forall>t\<in>set (Transactions res). \<exists>k<n. \<exists>rec.
            data_row rd k rec \<and> \<not> row_problem F rec \<and> SourceLine t = Suc k))) \<and>
   ((\<forall>k. \<not> or_Background ctx k \<and> rd k \<noteq> Read_EOF) \<longrightarrow> Parse F ctx rd src = None) \<and>
   (\<forall>rec l. row_problem F rec =
      (length rec < expectedColumnCount \<or> isl (parseTransaction F rec l src)))"
proof -
  have A: "\<forall>e. Parse F ctx rd src = Some (Inl e) \<longrightarrow>
      e = ParsingCancelled \<and>
      (\<exists>k. or_Background ctx k \<and> (\<forall>j<k. \<not> or_Background ctx j \<and> rd j \<noteq> Read_EOF))"
  proof (intro allI impI)
    fix e assume "Parse F ctx rd src = Some (Inl e)"
    then show "e = ParsingCancelled \<and>
        (\<exists>k. or_Background ctx k \<and> (\<forall>j<k. \<not> or_Background ctx j \<and> rd j \<noteq> Read_EOF))"
      by (rule Parse_Some_cases) auto
  qed
  have B: "\<forall>n. rd n = Read_EOF \<longrightarrow> (\<forall>j<n. rd j \<noteq> Read_EOF) \<longrightarrow> (\<forall>k\<le>n. \<not> or_Background ctx k) \<longrightarrow>
      (\<exists>res. Parse F ctx rd src = Some (Inr res) \<and>
         (\<forall>k<n. \<forall>rec. data_row rd k rec \<longrightarrow> length rec < expectedColumnCount \<longrightarrow>
            \<lparr>Line = Suc k, Row = rec,
             Error = ExpectedColumns expectedColumnCount (length rec)\<rparr> \<in> set (Errors res)) \<and>
         (\<forall>k<n. \<forall>rec err. data_row rd k rec \<longrightarrow> expectedColumnCount \<le> length rec \<longrightarrow>
            parseTransaction F rec (Suc k) src = Inl err \<longrightarrow>
            \<lparr>Line = Suc k, Row = rec, Error = err\<rparr> \<in> set (Errors res)) \<and>
         (\<forall>k<n. \<forall>rec. data_row rd k rec \<longrightarrow> \<not> row_problem F rec \<longrightarrow>
            (\<exists>t\<in>set (Transactions res). SourceLine t = Suc k)) \<and>
         (\<forall>e\<in>set (Errors res). \<exists>k<n. \<exists>rec.
            data_row rd k rec \<and> row_problem F rec \<and> Line e = Suc k \<and> Row e = rec) \<and>
         (\<forall>t\<in>set (Transactions res). \<exists>k<n. \<exists>rec.
            data_row rd k rec \<and> \<not> row_problem F rec \<and> SourceLine t = Suc k))"
  proof (intro allI impI)
    fix n
    assume eof: "rd n = Read_EOF" and ne: "\<forall>j<n. rd j \<noteq> Read_EOF"
      and nc: "\<forall>k\<le>n. \<not> or_Background ctx k"
    let ?res = "result (state_after F src rd n)"
    from ne nc have "\<forall>j<n. \<not> or_Background ctx j \<and> rd j \<noteq> Read_EOF" by simp
    moreover from nc have "\<not> or_Background ctx n" by simp
    ultimately have P: "Parse F ctx rd src = Some (Inr ?res)"
      using eof by (simp add: Parse_returns state_after_def)
    have B1: "\<forall>k<n. \<forall>rec. data_row rd k rec \<longrightarrow> length rec < expectedColumnCount \<longrightarrow>
        \<lparr>Line = Suc k, Row = rec,
         Error = ExpectedColumns expectedColumnCount (length rec)\<rparr> \<in> set (Errors ?res)"
      using short_row_collected by blast
    have B2: "\<forall>k<n. \<forall>rec err. data_row rd k rec \<longrightarrow> expectedColumnCount \<le> length rec \<longrightarrow>
        parseTransaction F rec (Suc k) src = Inl err \<longrightarrow>
        \<lparr>Line = Suc k, Row = rec, Error = err\<rparr> \<in> set (Errors ?res)"
      using invalid_row_collected by blast
    have B3: "\<forall>k<n. \<forall>rec. data_row rd k rec \<longrightarrow> \<not> row_problem F rec \<longrightarrow>
        (\<exists>t\<in>set (Transactions ?res). SourceLine t = Suc k)"
    proof (intro allI impI)
      fix k rec
      assume k: "k < n" and dr: "data_row rd k rec" and np: "\<not> row_problem F rec"
      from np have len: "expectedColumnCount \<le> length rec"
        and ok: "\<not> isl (parseTransaction F rec (Suc k) src)"
        by (simp_all add: row_problem_iff[of F rec "Suc k" src])
      from ok obtain parsed where p: "parseTransaction F rec (Suc k) src = Inr parsed"
        by (cases "parseTransaction F rec (Suc k) src") simp_all
      let ?t = "finish F (state_after F src rd k) parsed"
      from k dr len p have "?t \<in> set (Transactions ?res)" by (rule valid_row_emitted)
      moreover from len p have "SourceLine ?t = Suc k"
        by (simp add: finish_fields parseTransaction_SourceLine)
      ultimately show "\<exists>t\<in>set (Transactions ?res). SourceLine t = Suc k" by blast
    qed
    have B4: "\<forall>e\<in>set (Errors ?res). \<exists>k<n. \<exists>rec.
        data_row rd k rec \<and> row_problem F rec \<and> Line e = Suc k \<and> Row e = rec"
    proof
      fix e assume "e \<in> set (Errors ?res)"
      from errors_provenance[OF this] obtain k where k: "k < n" and l: "Line e = Suc k"
        and c: "(\<exists>rec msg. rd k = Read_err rec msg \<and> Row e = rec \<and> Error e = CsvReadError msg) \<or>
            (\<exists>rec. data_row rd k rec \<and> Row e = rec \<and>
               (if length rec < expectedColumnCount
                then Error e = ExpectedColumns expectedColumnCount (length rec)
                else parseTransaction F rec (Suc k) src = Inl (Error e)))"
        by blast
      from assms have "\<not> is_Read_err (rd k)" by simp
      then have "\<not> (\<exists>rec msg. rd k = Read_err rec msg)" by (auto simp: is_Read_err_def)
      with c obtain rec where dr: "data_row rd k rec" and r: "Row e = rec"
        and i: "if length rec < expectedColumnCount
                then Error e = ExpectedColumns expectedColumnCount (length rec)
                else parseTransaction F rec (Suc k) src = Inl (Error e)"
        by blast
      have "row_problem F rec"
      proof (cases "length rec < expectedColumnCount")
        case True
        then show ?thesis by (simp add: row_problem_def)
      next
        case False
        with i have "isl (parseTransaction F rec (Suc k) src)" by simp
        then show ?thesis by (simp add: row_problem_iff[of F rec "Suc k" src])
      qed
      with k l dr r
      show "\<exists>k<n. \<exists>rec. data_row rd k rec \<and> row_problem F rec \<and> Line e = Suc k \<and> Row e = rec"
        by blast
    qed
    have B5: "\<forall>t\<in>set (Transactions ?res). \<exists>k<n. \<exists>rec.
        data_row rd k rec \<and> \<not> row_problem F rec \<and> SourceLine t = Suc k"
    proof
      fix t assume "t \<in> set (Transactions ?res)"
      from transactions_provenance[OF this] obtain k rec parsed where k: "k < n"
        and dr: "data_row rd k rec" and len: "expectedColumnCount \<le> length rec"
        and p: "parseTransaction F rec (Suc k) src = Inr parsed"
        and t: "t = finish F (state_after F src rd k) parsed"
        by blast
      from len p have "\<not> row_problem F rec"
        by (simp add: row_problem_iff[of F rec "Suc k" src])
      moreover from len p t have "SourceLine t = Suc k"
        by (simp add: finish_fields parseTransaction_SourceLine)
      ultimately
      show "\<exists>k<n. \<exists>rec. data_row rd k rec \<and> \<not> row_problem F rec \<and> SourceLine t = Suc k"
        using k dr by blast
    qed
    show "\<exists>res. Parse F ctx rd src = Some (Inr res) \<and>
         (\<forall>k<n. \<forall>rec. data_row rd k rec \<longrightarrow> length rec < expectedColumnCount \<longrightarrow>
            \<lparr>Line = Suc k, Row = rec,
             Error = ExpectedColumns expectedColumnCount (length rec)\<rparr> \<in> set (Errors res)) \<and>
         (\<forall>k<n. \<forall>rec err. data_row rd k rec \<longrightarrow> expectedColumnCount \<le> length rec \<longrightarrow>
            parseTransaction F rec (Suc k) src = Inl err \<longrightarrow>
            \<lparr>Line = Suc k, Row = rec, Error = err\<rparr> \<in> set (Errors res)) \<and>
         (\<forall>k<n. \<forall>rec. data_row rd k rec \<longrightarrow> \<not> row_problem F rec \<longrightarrow>
            (\<exists>t\<in>set (Transactions res). SourceLine t = Suc k)) \<and>
         (\<forall>e\<in>set (Errors res). \<exists>k<n. \<exists>rec.
            data_row rd k rec \<and> row_problem F rec \<and> Line e = Suc k \<and> Row e = rec) \<and>
         (\<forall>t\<in>set (Transactions res). \<exists>k<n. \<exists>rec.
            data_row rd k rec \<and> \<not> row_problem F rec \<and> SourceLine t = Suc k)"
      by (rule exI[of _ ?res]) (rule conjI[OF P conjI[OF B1 conjI[OF B2 conjI[OF B3 conjI[OF B4 B5]]]]])
  qed
  have C: "(\<forall>k. \<not> or_Background ctx k \<and> rd k \<noteq> Read_EOF) \<longrightarrow> Parse F ctx rd src = None"
  proof (intro impI)
    assume "\<forall>k. \<not> or_Background ctx k \<and> rd k \<noteq> Read_EOF"
    then show "Parse F ctx rd src = None" by (rule Parse_never_returns)
  qed
  have D: "\<forall>rec l. row_problem F rec =
      (length rec < expectedColumnCount \<or> isl (parseTransaction F rec l src))"
    using row_problem_iff by blast
  show ?thesis by (rule conjI[OF A conjI[OF B conjI[OF C D]]])
qed

lemma clean_reader_at:
  "reader_of clean_statement 5 = Read_ok row_foreign"
  "reader_of clean_statement 6 = Read_ok row_short"
  "reader_of clean_statement 7 = Read_ok row_bad_date"
  "reader_of clean_statement 8 = Read_ok row_test"
  "reader_of clean_statement 9 = Read_EOF"
  by (simp_all add: reader_of_def clean_statement_def preamble_def)

lemma clean_no_fault: "\<not> is_Read_err (reader_of clean_statement k)"
proof (cases "k < length clean_statement")
  case True
  then have "reader_of clean_statement k \<in> set clean_statement"
    by (simp add: reader_of_def)
  then show ?thesis
    by (auto simp: clean_statement_def preamble_def is_Read_err_def)
next
  case False
  then show ?thesis by (simp add: reader_of_def is_Read_err_def)
qed

lemma clean_past_header: "5 \<le> k \<Longrightarrow> past_header (reader_of clean_statement) k"
proof -
  assume "5 \<le> k"
  moreover have "is_Read_ok (reader_of clean_statement 4)"
    by (simp add: reader_of_def clean_statement_def preamble_def is_Read_ok_def)
  ultimately have "4 < k \<and> (4::nat) \<le> 4 \<and> is_Read_ok (reader_of clean_statement 4)" by simp
  then show ?thesis unfolding past_header_iff by (rule exI[of _ 4])
qed

lemma clean_data_rows:
  "data_row (reader_of clean_statement) 5 row_foreign"
  "data_row (reader_of clean_statement) 6 row_short"
  "data_row (reader_of clean_statement) 7 row_bad_date"
  "data_row (reader_of clean_statement) 8 row_test"
  by (simp_all add: data_row_def skipped_def clean_reader_at is_column_header_def
      clean_past_header eval_rows)

lemma clean_row_problems:
  "\<not> row_problem sample_floats row_foreign"
  "\<not> row_problem sample_floats row_test"
  by (simp_all add: row_problem_iff[of _ _ 0 "[]"] expectedColumnCount_def eval_rows)

theorem only_cancellation_aborts_row_failures_collected_witness:
  "Parse sample_floats (Some (\<lambda>k. 2 \<le> k)) (reader_of clean_statement) ''statement.csv''
     = Some (Inl ParsingCancelled) \<and>
   Parse sample_floats None (reader_of clean_statement) ''statement.csv''
     = Some (Inr clean_result) \<and>
   \<lparr>Line = 7, Row = row_short, Error = ExpectedColumns 8 2\<rparr> \<in> set (Errors clean_result) \<and>
   \<lparr>Line = 8, Row = row_bad_date, Error = InvalidVoucherDate InvalidDateFormat\<rparr>
     \<in> set (Errors clean_result) \<and>
   6 \<in> SourceLine ` set (Transactions clean_result) \<and>
   9 \<in> SourceLine ` set (Transactions clean_result)"
proof -
  let ?rd = "reader_of clean_statement"
  have nf: "\<forall>k. \<not> is_Read_err (?rd k)" using clean_no_fault by blast
  have c: "Parse sample_floats (Some (\<lambda>k. 2 \<le> k)) ?rd ''statement.csv''
             = Some (Inl ParsingCancelled)"
  proof (rule Parse_cancelled[where n=2])
    show "\<forall>j<2. \<not> or_Background (Some ((\<le>) 2)) j \<and> ?rd j \<noteq> Read_EOF"
    proof (intro allI impI)
      fix j :: nat assume "j < 2"
      then have "j = 0 \<or> j = 1" by arith
      then show "\<not> or_Background (Some ((\<le>) 2)) j \<and> ?rd j \<noteq> Read_EOF"
        by (auto simp: or_Background_def reader_of_def clean_statement_def preamble_def)
    qed
    show "or_Background (Some ((\<le>) 2)) 2" by (simp add: or_Background_def)
  qed
  note inst = only_cancellation_aborts_row_failures_collected[OF nf,
      of sample_floats _ "''statement.csv''"]
  note A = conjunct1[OF inst[of "Some (\<lambda>k. 2 \<le> k)"], rule_format, OF c]
  note B = conjunct1[OF conjunct2[OF inst[of None]]]
  have ne: "\<forall>j<9. ?rd j \<noteq> Read_EOF"
  proof (intro allI impI)
    fix j :: nat assume "j < 9"
    moreover have "Read_EOF \<notin> set clean_statement"
      by (simp add: clean_statement_def preamble_def)
    moreover have "length clean_statement = 9"
      by (simp add: clean_statement_def preamble_def)
    ultimately show "?rd j \<noteq> Read_EOF" by (metis nth_mem reader_of_def)
  qed
  have nc: "\<forall>k\<le>9. \<not> or_Background None k"
    by (simp add: or_Background_def Background_def)
  from mp[OF mp[OF mp[OF spec[OF B, of 9] clean_reader_at(5)] ne] nc]
  obtain res where res: "Parse sample_floats None ?rd ''statement.csv'' = Some (Inr res)"
    and s: "\<forall>k<9. \<forall>rec. data_row ?rd k rec \<longrightarrow> length rec < expectedColumnCount \<longrightarrow>
              \<lparr>Line = Suc k, Row = rec,
               Error = ExpectedColumns expectedColumnCount (length rec)\<rparr> \<in> set (Errors res)"
    and i: "\<forall>k<9. \<forall>rec err. data_row ?rd k rec \<longrightarrow> expectedColumnCount \<le> length rec \<longrightarrow>
              parseTransaction sample_floats rec (Suc k) ''statement.csv'' = Inl err \<longrightarrow>
              \<lparr>Line = Suc k, Row = rec, Error = err\<rparr> \<in> set (Errors res)"
    and v: "\<forall>k<9. \<forall>rec. data_row ?rd k rec \<longrightarrow> \<not> row_problem sample_floats rec \<longrightarrow>
              (\<exists>t\<in>set (Transactions res). SourceLine t = Suc k)"
    by blast
  from res clean_Parse have r: "res = clean_result" by simp
  from s[rule_format, OF _ clean_data_rows(2)]
  have "\<lparr>Line = 7, Row = row_short, Error = ExpectedColumns 8 2\<rparr> \<in> set (Errors res)"
    by (simp add: expectedColumnCount_def row_short_class)
  moreover from i[rule_format, OF _ clean_data_rows(3) _ parse_row_bad_date]
  have "\<lparr>Line = 8, Row = row_bad_date, Error = InvalidVoucherDate InvalidDateFormat\<rparr>
          \<in> set (Errors res)"
    by (simp add: expectedColumnCount_def row_bad_date_class)
  moreover from v[rule_format, OF _ clean_data_rows(1) clean_row_problems(1)]
  have "6 \<in> SourceLine ` set (Transactions res)" by auto
  moreover from v[rule_format, OF _ clean_data_rows(4) clean_row_problems(2)]
  have "9 \<in> SourceLine ` set (Transactions res)" by auto
  ultimately show ?thesis using A c res r by simp
qed

text \<open>
  A read fault is not among the causes of a hard error: the loop appends every error
  of the reader other than \<open>io.EOF\<close> to the error list and reads on, whereas the README
  of the parser lists I/O errors during CSV reading among the fatal errors. A reader
  that reports a fault at every call keeps the loop running.
\<close>

lemma persistent_read_fault_never_returns:
  assumes "\<forall>k. rd k = Read_err rec msg"
  shows "Parse F None rd src = None"
proof (rule Parse_never_returns)
  from assms show "\<forall>k. \<not> or_Background None k \<and> rd k \<noteq> Read_EOF"
    by (simp add: or_Background_def Background_def)
qed

section \<open>The rows of the CSV file\<close>

lemma digits_step: "10 \<le> n \<Longrightarrow> digits n = digits (n div 10) @ [digit_char (n mod 10)]"
  by (subst digits.simps) simp

lemma digits_below_10: "n < 10 \<Longrightarrow> digits n = [digit_char n]"
  by (subst digits.simps) simp

lemma digits_below_100: "10 \<le> n \<Longrightarrow> n < 100 \<Longrightarrow> digits n = two_digits n"
  by (simp add: digits_step digits_below_10 two_digits_def)

lemma digits_below_1000:
  assumes "100 \<le> n" and "n < 1000"
  shows "digits n = [digit_char (n div 100), digit_char (n div 10 mod 10), digit_char (n mod 10)]"
proof -
  from assms have a: "10 \<le> n div 10" "n div 10 < 100" by arith+
  have b: "n div 10 div 10 = n div 100" by (simp add: div_mult2_eq[symmetric])
  from assms have "digits n = digits (n div 10) @ [digit_char (n mod 10)]"
    by (simp add: digits_step)
  also from a have "digits (n div 10) = two_digits (n div 10)" by (rule digits_below_100)
  finally show ?thesis by (simp only: two_digits_def b append.simps)
qed

lemma digits_below_10000:
  assumes "1000 \<le> n" and "n < 10000"
  shows "digits n = four_digits n"
proof -
  from assms have a: "100 \<le> n div 10" "n div 10 < 1000" by arith+
  have b: "n div 10 div 100 = n div 1000" "n div 10 div 10 = n div 100"
    by (simp_all add: div_mult2_eq[symmetric])
  from assms have "digits n = digits (n div 10) @ [digit_char (n mod 10)]"
    by (simp add: digits_step)
  also from a have "digits (n div 10) =
      [digit_char (n div 10 div 100), digit_char (n div 10 div 10 mod 10),
       digit_char (n div 10 mod 10)]" by (rule digits_below_1000)
  finally show ?thesis by (simp only: four_digits_def b append.simps)
qed

lemma digit_char_0: "digit_char 0 = CHR ''0''"
  by (simp add: digit_char_def)

lemma appendInt_2:
  assumes "n < 100"
  shows "appendInt (int n) 2 = two_digits n"
proof (cases "n < 10")
  case True
  then show ?thesis by (simp add: appendInt_def digits_below_10 two_digits_def digit_char_0)
next
  case False
  with assms show ?thesis by (simp add: appendInt_def digits_below_100 two_digits_def)
qed

lemma appendInt_4:
  assumes "n < 10000"
  shows "appendInt (int n) 4 = four_digits n"
proof -
  consider "n < 10" | "10 \<le> n" "n < 100" | "100 \<le> n" "n < 1000" | "1000 \<le> n"
    by linarith
  then show ?thesis
  proof cases
    case 1
    then have "n div 1000 = 0" "n div 100 = 0" "n div 10 = 0" "n mod 10 = n" by simp_all
    moreover have "replicate (4 - 1) CHR ''0'' = ''000''" by (simp add: numeral_eq_Suc)
    ultimately show ?thesis using 1
      by (simp add: appendInt_def digits_below_10 four_digits_def digit_char_0)
  next
    case 2
    then have "n div 1000 = 0" "n div 100 = 0" by simp_all
    moreover have "replicate (4 - 2) CHR ''0'' = ''00''" by (simp add: numeral_eq_Suc)
    ultimately show ?thesis using 2
      by (simp add: appendInt_def digits_below_100 four_digits_def two_digits_def digit_char_0)
  next
    case 3
    then have "n div 1000 = 0" by simp
    with 3 show ?thesis
      by (simp add: appendInt_def digits_below_1000 four_digits_def digit_char_0)
  next
    case 4
    with assms show ?thesis
      by (simp add: appendInt_def digits_below_10000 Let_def) (simp add: four_digits_def)
  qed
qed


lemma Format_iso_shape:
  assumes "0 \<le> year t" and "year t < 10000" and "month t < 100" and "day t < 100"
  shows "Format_iso t =
    four_digits (nat (year t)) @ ''-'' @ two_digits (month t) @ ''-'' @ two_digits (day t)"
proof -
  from assms(1,2) have "appendInt (year t) 4 = four_digits (nat (year t))"
    using appendInt_4[of "nat (year t)"] by simp
  with assms(3,4) show ?thesis by (simp add: Format_iso_def appendInt_2)
qed










section \<open>Two calls on the same input\<close>

lemma parseTransaction_relabel:
  assumes "expectedColumnCount \<le> length rec"
  shows "parseTransaction F rec l src2 = map_sum id (relabel src2) (parseTransaction F rec l src1)"
proof (cases "parseDate (TrimSpace (rec ! 0))")
  case (Inl e)
  with assms show ?thesis by (simp add: parseTransaction_explicit)
next
  case d: (Inr voucherDate)
  show ?thesis
  proof (cases "parseDate (TrimSpace (rec ! 1))")
    case (Inl e)
    with assms d show ?thesis by (simp add: parseTransaction_explicit)
  next
    case pd: (Inr receiptDate)
    show ?thesis
    proof (cases "TrimSpace (rec ! 2) = []")
      case True
      with assms d pd show ?thesis by (simp add: parseTransaction_explicit)
    next
      case py: False
      show ?thesis
      proof (cases "parseAmount F (TrimSpace (rec ! 6))")
        case (Inl e)
        with assms d pd py show ?thesis by (simp add: parseTransaction_explicit)
      next
        case (Inr amount)
        with assms d pd py show ?thesis
          by (simp add: parseTransaction_explicit relabel_def Let_def)
      qed
    qed
  qed
qed

lemma associate_fee_relabel:
  "associate_fee (map_option (relabel src) prev) (relabel src p) =
   relabel src (associate_fee prev p)"
  by (cases prev) (simp_all add: associate_fee_def relabel_def)

lemma generateImportID_relabel:
  "generateImportID F (relabel src t) om = generateImportID F t om"
  by (simp add: generateImportID_def relabel_def)

lemma relabel_ImportID:
  "(relabel src t)\<lparr>ImportID := i\<rparr> = relabel src (t\<lparr>ImportID := i\<rparr>)"
  "ImportID (relabel src t) = ImportID t"
  by (simp_all add: relabel_def)

lemma relabel_state_fields:
  "lineNumber (relabel_state src st) = lineNumber st"
  "headerSkipped (relabel_state src st) = headerSkipped st"
  "occurrenceMap (relabel_state src st) = occurrenceMap st"
  "previousTransaction (relabel_state src st) = map_option (relabel src) (previousTransaction st)"
  "Errors (result (relabel_state src st)) = Errors (result st)"
  "TotalRows (result (relabel_state src st)) = TotalRows (result st)"
  "SuccessfulRows (result (relabel_state src st)) = SuccessfulRows (result st)"
  "Transactions (result (relabel_state src st)) = map (relabel src) (Transactions (result st))"
  by (simp_all add: relabel_state_def)

lemma iteration_relabel:
  "iteration F src2 rr (relabel_state src2 st) = relabel_state src2 (iteration F src1 rr st)"
proof (cases rr)
  case Read_EOF
  then show ?thesis by (simp add: iteration_def Let_def relabel_state_def)
next
  case (Read_err rec msg)
  then show ?thesis by (simp add: iteration_def Let_def relabel_state_def add_error_def)
next
  case (Read_ok rec)
  show ?thesis
  proof (cases "length rec < expectedColumnCount")
    case True
    with Read_ok show ?thesis
      by (simp add: iteration_def Let_def relabel_state_def add_error_def)
  next
    case False
    then have len: "expectedColumnCount \<le> length rec" by simp
    from len have ne: "rec \<noteq> []" by (auto simp: expectedColumnCount_def)
    note pt = parseTransaction_relabel[OF len, of F "lineNumber st + 1" src2 src1]
    show ?thesis
    proof (cases "parseTransaction F rec (lineNumber st + 1) src1")
      case (Inl err)
      with pt have "parseTransaction F rec (lineNumber st + 1) src2 = Inl err" by simp
      with Inl Read_ok False ne show ?thesis
        by (simp add: iteration_def Let_def relabel_state_def add_error_def
            expectedColumnCount_def)
    next
      case (Inr parsed)
      with pt have "parseTransaction F rec (lineNumber st + 1) src2 = Inr (relabel src2 parsed)"
        by simp
      with Inr Read_ok False ne show ?thesis
        by (simp add: iteration_def Let_def relabel_state_def associate_fee_relabel
            generateImportID_relabel relabel_ImportID expectedColumnCount_def
            split: prod.splits)
    qed
  qed
qed

lemma run_relabel:
  "run F src2 rrs (relabel_state src2 st) = relabel_state src2 (run F src1 rrs st)"
proof (induction rrs rule: rev_induct)
  case Nil
  show ?case by (simp add: run_def)
next
  case (snoc rr rrs)
  then show ?case by (simp add: iteration_relabel[of F src2 rr _ src1])
qed

lemma state_after_relabel:
  "state_after F src2 rd n = relabel_state src2 (state_after F src1 rd n)"
proof -
  have "relabel_state src2 initial_state = initial_state"
    by (simp add: relabel_state_def initial_state_def)
  with run_relabel[of F src2 "reads rd n" initial_state src1] show ?thesis
    by (simp add: state_after_def)
qed

lemma first_EOF_unique:
  fixes rd :: reader
  assumes "\<forall>j<n. rd j \<noteq> Read_EOF" and "rd n = Read_EOF"
    and "\<forall>j<m. rd j \<noteq> Read_EOF" and "rd m = Read_EOF"
  shows "n = m"
proof (rule ccontr)
  assume "n \<noteq> m"
  then consider "n < m" | "m < n" by linarith
  then show False
  proof cases
    case 1
    with assms(3) have "rd n \<noteq> Read_EOF" by simp
    with assms(2) show False by simp
  next
    case 2
    with assms(1) have "rd m \<noteq> Read_EOF" by simp
    with assms(4) show False by simp
  qed
qed

lemma Parse_relabel:
  assumes "Parse F ctx1 rd src1 = Some (Inr r1)" and "Parse F ctx2 rd src2 = Some (Inr r2)"
  shows "Transactions r2 = map (relabel src2) (Transactions r1)"
    and "Errors r2 = Errors r1"
    and "TotalRows r2 = TotalRows r1"
    and "SuccessfulRows r2 = SuccessfulRows r1"
proof -
  from assms(1) obtain n where n: "\<forall>j<n. \<not> or_Background ctx1 j \<and> rd j \<noteq> Read_EOF"
    "rd n = Read_EOF" and r1: "r1 = result (state_after F src1 rd n)"
    by (rule Parse_Inr_state_after)
  from assms(2) obtain m where m: "\<forall>j<m. \<not> or_Background ctx2 j \<and> rd j \<noteq> Read_EOF"
    "rd m = Read_EOF" and r2: "r2 = result (state_after F src2 rd m)"
    by (rule Parse_Inr_state_after)
  from n(1) have a: "\<forall>j<n. rd j \<noteq> Read_EOF" by simp
  from m(1) have b: "\<forall>j<m. rd j \<noteq> Read_EOF" by simp
  from a n(2) b m(2) have "n = m" by (rule first_EOF_unique)
  with r2 have "r2 = result (relabel_state src2 (state_after F src1 rd n))"
    by (simp add: state_after_relabel[of F src2 rd _ src1])
  with r1 show "Transactions r2 = map (relabel src2) (Transactions r1)"
    and "Errors r2 = Errors r1"
    and "TotalRows r2 = TotalRows r1"
    and "SuccessfulRows r2 = SuccessfulRows r1"
    by (simp_all add: relabel_state_fields)
qed

text \<open>
  C3. \<open>Parse\<close> has no state of its own between calls: every call starts its loop from
  \<open>initial_state\<close>, whose occurrence map is empty. Two calls that read the same records
  and return a result, whatever their contexts and their source labels, return the same
  sequence of import identifiers; the transactions differ in the source label only, and
  the errors and the counters are the same. When one call has returned a result, another
  call on the same records whose context is never done returns a result too.
\<close>

theorem import_ids_same_in_every_call:
  "(\<forall>r1 r2. Parse F ctx1 rd src1 = Some (Inr r1) \<longrightarrow> Parse F ctx2 rd src2 = Some (Inr r2) \<longrightarrow>
      map ImportID (Transactions r1) = map ImportID (Transactions r2) \<and>
      Transactions r2 = map (relabel src2) (Transactions r1) \<and>
      Errors r2 = Errors r1 \<and> TotalRows r2 = TotalRows r1 \<and>
      SuccessfulRows r2 = SuccessfulRows r1) \<and>
   (\<forall>r1. Parse F ctx1 rd src1 = Some (Inr r1) \<longrightarrow> (\<forall>k. \<not> or_Background ctx2 k) \<longrightarrow>
      (\<exists>r2. Parse F ctx2 rd src2 = Some (Inr r2))) \<and>
   Parse F ctx1 rd src1 = parse_loop F (or_Background ctx1) rd src1 initial_state \<and>
   occurrenceMap initial_state = Map.empty"
proof -
  have A: "\<forall>r1 r2. Parse F ctx1 rd src1 = Some (Inr r1) \<longrightarrow>
      Parse F ctx2 rd src2 = Some (Inr r2) \<longrightarrow>
      map ImportID (Transactions r1) = map ImportID (Transactions r2) \<and>
      Transactions r2 = map (relabel src2) (Transactions r1) \<and>
      Errors r2 = Errors r1 \<and> TotalRows r2 = TotalRows r1 \<and>
      SuccessfulRows r2 = SuccessfulRows r1"
  proof (intro allI impI)
    fix r1 r2
    assume p1: "Parse F ctx1 rd src1 = Some (Inr r1)"
      and p2: "Parse F ctx2 rd src2 = Some (Inr r2)"
    note r = Parse_relabel[OF p1 p2]
    from r(1) have "map ImportID (Transactions r1) = map ImportID (Transactions r2)"
      by (simp add: relabel_ImportID comp_def)
    with r show "map ImportID (Transactions r1) = map ImportID (Transactions r2) \<and>
      Transactions r2 = map (relabel src2) (Transactions r1) \<and>
      Errors r2 = Errors r1 \<and> TotalRows r2 = TotalRows r1 \<and>
      SuccessfulRows r2 = SuccessfulRows r1"
      by simp
  qed
  have B: "\<forall>r1. Parse F ctx1 rd src1 = Some (Inr r1) \<longrightarrow> (\<forall>k. \<not> or_Background ctx2 k) \<longrightarrow>
      (\<exists>r2. Parse F ctx2 rd src2 = Some (Inr r2))"
  proof (intro allI impI)
    fix r1
    assume p1: "Parse F ctx1 rd src1 = Some (Inr r1)" and nc: "\<forall>k. \<not> or_Background ctx2 k"
    from p1 obtain n where n: "\<forall>j<n. \<not> or_Background ctx1 j \<and> rd j \<noteq> Read_EOF"
      "rd n = Read_EOF"
      by (rule Parse_Inr_state_after)
    from n(1) nc have "\<forall>j<n. \<not> or_Background ctx2 j \<and> rd j \<noteq> Read_EOF" by simp
    moreover from nc have "\<not> or_Background ctx2 n" by simp
    ultimately have "Parse F ctx2 rd src2
        = Some (Inr (result (run F src2 (reads rd n) initial_state)))"
      using n(2) by (rule Parse_returns)
    then show "\<exists>r2. Parse F ctx2 rd src2 = Some (Inr r2)" by blast
  qed
  have C: "Parse F ctx1 rd src1 = parse_loop F (or_Background ctx1) rd src1 initial_state"
    by (simp add: Parse_def)
  have D: "occurrenceMap initial_state = Map.empty" by (simp add: initial_state_def)
  show ?thesis by (rule conjI[OF A conjI[OF B conjI[OF C D]]])
qed

theorem import_ids_same_in_every_call_witness:
  "Parse sample_floats None (reader_of sample_statement) ''january.csv''
     = Some (Inr (sample_result ''january.csv'')) \<and>
   Parse sample_floats None (reader_of sample_statement) ''copy.csv''
     = Some (Inr (sample_result ''copy.csv'')) \<and>
   map ImportID (Transactions (sample_result ''january.csv''))
     = map ImportID (Transactions (sample_result ''copy.csv'')) \<and>
   map ImportID (Transactions (sample_result ''copy.csv'')) =
     [''YNAB:-10000:2026-01-28:1'', ''YNAB:-10000:2026-01-28:2'', ''YNAB:-10000:2026-01-05:1'',
      ''YNAB:-10000:2026-01-28:3'', ''YNAB:-10000:2026-01-05:2'']"
proof -
  note p1 = sample_Parse[of "''january.csv''"]
  note p2 = sample_Parse[of "''copy.csv''"]
  note inst = import_ids_same_in_every_call[of sample_floats None "reader_of sample_statement"
      "''january.csv''" None "''copy.csv''"]
  from conjunct1[OF inst, rule_format, OF p1 p2]
  have "map ImportID (Transactions (sample_result ''january.csv''))
     = map ImportID (Transactions (sample_result ''copy.csv''))"
    by (rule conjunct1)
  moreover have "map ImportID (Transactions (sample_result ''copy.csv'')) =
     [''YNAB:-10000:2026-01-28:1'', ''YNAB:-10000:2026-01-28:2'', ''YNAB:-10000:2026-01-05:1'',
      ''YNAB:-10000:2026-01-28:3'', ''YNAB:-10000:2026-01-05:2'']"
    by (simp add: sample_result_def)
  ultimately show ?thesis using p1 p2 by simp
qed

end
